theory Spec2Isabelle
  imports Complex_Main "HOL-Library.Word" "HOL-Library.AList"
begin

section \<open>Data model of the hybrid memory pool (MemoryPoolIPCHybrid.cpp)\<close>

text \<open>
  Machine types. \<open>size_t\<close> and \<open>uint64_t\<close> are 64-bit words whose addition wraps;
  \<open>std::ptrdiff_t\<close> offset handles are opaque (no arithmetic is done on them), so they
  are integers. A raw address is either null, the address of the object at an offset of
  the managed segment (\<open>get_address_from_handle\<close> / \<open>get_handle_from_address\<close> are the
  two directions of \<open>Shm\<close>), or an address of the process heap.
\<close>

type_synonym size_t = "64 word"
type_synonym u64 = "64 word"
type_synonym offset = int
type_synonym StreamID = string

datatype addr = Null | Shm offset | Heap nat

text \<open>
  \<open>CpuBuffer\<close> is a \<open>std::shared_ptr<uint8_t>\<close>: the raw pointer and what its deleter
  does when the last copy dies. \<open>DestroyLocal\<close> is the lambda
  \<open>[this](uint8_t* ptr) { this->destroyLocal(ptr); }\<close>; \<open>External\<close> is a deleter of
  a collaborator (the local fallback pool, a mapped view of the graphics utility).
\<close>

datatype deleter = NoDeleter | DestroyLocal | External

datatype CpuBuffer = CpuBuffer (cb_get: addr) (cb_deleter: deleter)

definition emptyCpuBuffer :: CpuBuffer where
  "emptyCpuBuffer = CpuBuffer Null NoDeleter"

record GpuBufferData =
  gb_handle :: u64
  gb_size :: u64
  gb_memoryTypeIndex :: "32 word"

type_synonym GpuBufferDataWithPID = "GpuBufferData \<times> u64"

datatype pool_id = PoolCPU | PoolGPU | PoolGPUDeviceLocal

text \<open>
  Modelled from the spec: \<open>SharedPtrIPC\<close> / \<open>SharedPtrGPUIPC\<close>, \<open>ReclaimerIPC\<close> and
  \<open>ReclaimerGPUIPC\<close> are declared in MemoryPoolIPCHybrid.h, which is not part of the
  sources. The spec describes them as a cross-process reference-counted wrapper
  constructed in the segment, "with a reclaimer that, on last drop, relocks
  \<open>buffers_mutex\<close> and pushes the offset back into \<open>buffers[n]\<close> -- never decrements
  \<open>allocated\<close> and never frees the segment memory". A control block holds the use
  count, the stored pointer, and the reclaimer's pool, offset and size.
\<close>

record ctrl =
  use_count :: nat
  c_ptr :: addr
  rc_pool :: pool_id
  rc_offset :: offset
  rc_size :: size_t

datatype SharedPtr = EmptySP | SP nat addr

fun sp_get :: "SharedPtr \<Rightarrow> addr" where
  "sp_get EmptySP = Null"
| "sp_get (SP i p) = p"

record MemoryPoolIPC =
  buffers :: "(size_t \<times> offset list) list"
  sizes :: "(offset \<times> size_t) list"
  allocated :: size_t

record AuditorIPC =
  processes :: "u64 list"
  invalid :: bool

text \<open>
  Double precision. \<open>MAX_SHM_USAGE_FRAC\<close> is a floating constant (modelled from the
  spec: it is defined in the missing header, and the spec gives it as 0.9, which C++
  reads as a \<open>double\<close>), so the budget test
  \<open>pool_->allocated + nrBytes < shmSize_ * MAX_SHM_USAGE_FRAC\<close> is evaluated in IEEE
  binary64: each \<open>size_t\<close> operand is converted to \<open>double\<close>, the product is rounded,
  and the two doubles are compared. A finite non-negative double is \<open>m * 2^-k\<close>; it is
  kept as the pair of \<open>m\<close> and \<open>k\<close> (every such double has \<open>k \<le> 1074\<close>, and then the
  products below never fall between two subnormal numbers). Rounding is to the nearest
  number of 53 significant bits, ties to the even significand.
\<close>

datatype double = Double (mant: nat) (shift: nat)

definition dval :: "double \<Rightarrow> real" where
  "dval d = real (mant d) / 2 ^ shift d"

text \<open>The number of bits of a natural number.\<close>

fun bitlen :: "nat \<Rightarrow> nat" where
  "bitlen n = (if n = 0 then 0 else Suc (bitlen (n div 2)))"

text \<open>\<open>p / 2^k\<close> rounded to the nearest integer, ties to even.\<close>

definition round_even :: "nat \<Rightarrow> nat \<Rightarrow> nat" where
  "round_even k p =
     (let q = p div 2 ^ k; r = p mod 2 ^ k
      in if 2 * r < 2 ^ k \<or> (2 * r = 2 ^ k \<and> even q) then q else q + 1)"

text \<open>\<open>p\<close> rounded to \<open>t\<close> significant bits; binary64 has 53.\<close>

definition round_bits :: "nat \<Rightarrow> nat \<Rightarrow> nat" where
  "round_bits t p = (let k = bitlen p - t in round_even k p * 2 ^ k)"

definition round53 :: "nat \<Rightarrow> nat" where
  "round53 p = round_bits 53 p"

text \<open>
  The conversion of a \<open>size_t\<close> to \<open>double\<close>, the product of two doubles and the
  comparison \<open><\<close> of two doubles.
\<close>

definition to_double :: "64 word \<Rightarrow> double" where
  "to_double w = Double (round53 (unat w)) 0"

definition dmul :: "double \<Rightarrow> double \<Rightarrow> double" where
  "dmul a b = Double (round53 (mant a * mant b)) (shift a + shift b)"

definition dless :: "double \<Rightarrow> double \<Rightarrow> bool" where
  "dless a b = (mant a * 2 ^ shift b < mant b * 2 ^ shift a)"

text \<open>
  Compile-time and platform facts the functions read: the constant
  \<open>MAX_SHM_USAGE_FRAC\<close>, whether \<open>_WIN32\<close> is defined, and what \<open>getpid()\<close> /
  \<open>GetCurrentProcessId()\<close> returns.
\<close>

record env =
  MAX_SHM_USAGE_FRAC :: double
  win32 :: bool
  getpid :: u64

text \<open>
  What a member function can end with instead of a value:
  \<open>boost::interprocess::bad_alloc\<close>, thrown by the segment manager and caught nowhere in
  this file. A call returns its value (\<open>Inr\<close>) or ends with the exception (\<open>Inl\<close>), and
  in both cases leaves a state behind.
\<close>

datatype error = bad_alloc

definition returns :: "'a \<times> 's \<Rightarrow> (error + 'a) \<times> 's" where
  "returns r = (Inr (fst r), snd r)"

text \<open>
  The state a member function can touch: the four named objects of the segment, the
  anonymous objects constructed in it (\<open>seg_blocks\<close>: byte arrays and GPU records that
  are constructed and not destroyed; \<open>seg_gpu\<close>: the contents of the GPU records;
  \<open>seg_ctrl\<close>, \<open>seg_next\<close>: the control blocks of the shared wrappers), the members of
  the \<open>MemoryPoolIPCHybrid\<close> object (named as in the source, without the trailing
  underscore), the handles the graphics utility was asked to
  free, and which processes the operating system reports alive.
\<close>

record state =
  pool :: MemoryPoolIPC
  poolGPU :: MemoryPoolIPC
  poolGPUDeviceLocal :: MemoryPoolIPC
  auditor :: AuditorIPC
  seg_blocks :: "offset list"
  seg_gpu :: "offset \<Rightarrow> GpuBufferDataWithPID"
  seg_ctrl :: "nat \<rightharpoonup> ctrl"
  seg_next :: nat
  shmSize :: size_t
  shmGPUSize :: size_t
  ptrs :: "(addr \<times> SharedPtr) list"
  handlesGPU :: "(u64 \<times> SharedPtr) list"
  gpuHandleProcMap :: "(u64 \<times> u64) list"
  gpuMappedBuffers :: "(u64 \<times> CpuBuffer) list"
  activatedStreams :: "StreamID \<rightharpoonup> bool"
  force_clean :: bool
  stopSignal :: bool
  vk_active :: bool
  vk_freed :: "u64 list"
  os_alive :: "u64 \<Rightarrow> bool"

section \<open>Shared wrappers and reclaimers\<close>

fun get_pool :: "pool_id \<Rightarrow> state \<Rightarrow> MemoryPoolIPC" where
  "get_pool PoolCPU s = pool s"
| "get_pool PoolGPU s = poolGPU s"
| "get_pool PoolGPUDeviceLocal s = poolGPUDeviceLocal s"

fun set_pool :: "pool_id \<Rightarrow> MemoryPoolIPC \<Rightarrow> state \<Rightarrow> state" where
  "set_pool PoolCPU p s = s\<lparr>pool := p\<rparr>"
| "set_pool PoolGPU p s = s\<lparr>poolGPU := p\<rparr>"
| "set_pool PoolGPUDeviceLocal p s = s\<lparr>poolGPUDeviceLocal := p\<rparr>"

text \<open>\<open>m[k]\<close> of a C++ map read as a value: the entry, or a default-constructed one.\<close>

definition lookup_default :: "'v \<Rightarrow> ('k \<times> 'v) list \<Rightarrow> 'k \<Rightarrow> 'v" where
  "lookup_default d m k = (case map_of m k of None \<Rightarrow> d | Some v \<Rightarrow> v)"

text \<open>\<open>m.emplace(k, v)\<close>: inserts only when the key is absent.\<close>

definition emplace :: "'k \<Rightarrow> 'v \<Rightarrow> ('k \<times> 'v) list \<Rightarrow> ('k \<times> 'v) list" where
  "emplace k v m = (if map_of m k = None then m @ [(k, v)] else m)"

text \<open>
  Modelled from the spec: the reclaimer (missing header). It pushes the offset back
  into \<open>buffers[n]\<close> of its pool and touches nothing else.
\<close>

definition reclaim :: "ctrl \<Rightarrow> state \<Rightarrow> state" where
  "reclaim c s =
     (let p = get_pool (rc_pool c) s;
          ptrlist = lookup_default [] (buffers p) (rc_size c)
      in set_pool (rc_pool c)
           (p\<lparr>buffers := AList.update (rc_size c) (ptrlist @ [rc_offset c]) (buffers p)\<rparr>) s)"

text \<open>
  Modelled from the spec: copying a shared wrapper adds a reference, destroying one
  drops it, and the drop of the last reference runs the reclaimer and frees the
  control block.
\<close>

definition sp_construct :: "addr \<Rightarrow> pool_id \<Rightarrow> offset \<Rightarrow> size_t \<Rightarrow> state \<Rightarrow> SharedPtr \<times> state" where
  "sp_construct p pl off n s =
     (SP (seg_next s) p,
      s\<lparr>seg_ctrl := (seg_ctrl s)(seg_next s \<mapsto>
            \<lparr>use_count = 1, c_ptr = p, rc_pool = pl, rc_offset = off, rc_size = n\<rparr>),
        seg_next := seg_next s + 1\<rparr>)"

definition sp_copy :: "SharedPtr \<Rightarrow> state \<Rightarrow> state" where
  "sp_copy w s =
     (case w of
        EmptySP \<Rightarrow> s
      | SP i p \<Rightarrow>
          (case seg_ctrl s i of
             None \<Rightarrow> s
           | Some c \<Rightarrow> s\<lparr>seg_ctrl := (seg_ctrl s)(i \<mapsto> c\<lparr>use_count := use_count c + 1\<rparr>)\<rparr>))"

definition sp_release :: "SharedPtr \<Rightarrow> state \<Rightarrow> state" where
  "sp_release w s =
     (case w of
        EmptySP \<Rightarrow> s
      | SP i p \<Rightarrow>
          (case seg_ctrl s i of
             None \<Rightarrow> s
           | Some c \<Rightarrow>
               if use_count c \<le> 1
               then reclaim c (s\<lparr>seg_ctrl := (seg_ctrl s)(i := None)\<rparr>)
               else s\<lparr>seg_ctrl := (seg_ctrl s)(i \<mapsto> c\<lparr>use_count := use_count c - 1\<rparr>)\<rparr>))"

text \<open>The use count of a wrapper's control block (0 when there is none).\<close>

definition sp_use_count :: "SharedPtr \<Rightarrow> state \<Rightarrow> nat" where
  "sp_use_count w s =
     (case w of
        EmptySP \<Rightarrow> 0
      | SP i p \<Rightarrow> (case seg_ctrl s i of None \<Rightarrow> 0 | Some c \<Rightarrow> use_count c))"

section \<open>The auditor\<close>

definition isValid :: "state \<Rightarrow> bool" where
  "isValid s = (\<not> invalid (auditor s))"

definition processesAlive :: "state \<Rightarrow> bool" where
  "processesAlive s = list_all (os_alive s) (processes (auditor s))"

definition audit :: "state \<Rightarrow> bool" where
  "audit s = (isValid s \<and> processesAlive s)"

definition invalidate :: "state \<Rightarrow> state" where
  "invalidate s = s\<lparr>auditor := (auditor s)\<lparr>invalid := True\<rparr>\<rparr>"

section \<open>The CPU pool\<close>

text \<open>
  The tail of \<open>requestSHM\<close> (lines 331-343): construct the shared wrapper in the
  segment, \<open>ptrs_.emplace(ptr, buffer)\<close> (a copy, when the key is new), destroy the
  construction-site wrapper, return the local pointer.
\<close>

definition wrapSHM :: "state \<Rightarrow> addr \<Rightarrow> offset \<Rightarrow> size_t \<Rightarrow> CpuBuffer \<times> state" where
  "wrapSHM s ptr offset_ptr nrBytes =
     (let (buffer, s1) = sp_construct ptr PoolCPU offset_ptr nrBytes s;
          s2 = (if map_of (ptrs s1) ptr = None
                then sp_copy buffer (s1\<lparr>ptrs := emplace ptr buffer (ptrs s1)\<rparr>)
                else s1);
          s3 = sp_release buffer s2
      in (CpuBuffer ptr DestroyLocal, s3))"

text \<open>
  \<open>shm_->construct<uint8_t>(anonymous_instance)[nrBytes]()\<close>. The segment manager is a
  collaborator: it returns the address of a new array of \<open>nrBytes\<close> bytes inside the
  segment, or throws \<open>bad_alloc\<close> when it finds no room for one. \<open>found\<close> is what it
  finds, the offset of the array or nothing. Offsets of the segment are
  \<open>std::ptrdiff_t\<close> values counted from its base, so whatever is found, an array that
  would start below offset 0 or end beyond offset \<open>2^63 - 1\<close> is not constructed.
\<close>

definition construct_bytes :: "size_t \<Rightarrow> offset option \<Rightarrow> error + offset" where
  "construct_bytes nrBytes found =
     (case found of
        None \<Rightarrow> Inl bad_alloc
      | Some off \<Rightarrow>
          if 0 \<le> off \<and> off + int (unat nrBytes) \<le> 2 ^ 63 - 1 then Inr off else Inl bad_alloc)"

text \<open>
  \<open>requestSHM(nrBytes)\<close>. The sum \<open>pool_->allocated + nrBytes\<close> is a \<open>size_t\<close> sum and
  wraps; the test is made in double precision. When \<open>construct\<close> throws, the exception
  leaves \<open>requestSHM\<close> with \<open>allocated\<close> and \<open>sizes\<close> not yet written. (The wrapper
  constructed in the tail is a small object of fixed size; the segment is taken to have
  room for it.)
\<close>

definition requestSHM ::
  "env \<Rightarrow> state \<Rightarrow> size_t \<Rightarrow> offset option \<Rightarrow> (error + CpuBuffer) \<times> state" where
  "requestSHM e s nrBytes found =
     (let bs = emplace nrBytes [] (buffers (pool s));
          ptrlist = lookup_default [] bs nrBytes
      in if ptrlist \<noteq> []
         then returns
                (wrapSHM (s\<lparr>pool := (pool s)\<lparr>buffers := AList.update nrBytes (butlast ptrlist) bs\<rparr>\<rparr>)
                   (Shm (last ptrlist)) (last ptrlist) nrBytes)
         else
           let s1 = s\<lparr>pool := (pool s)\<lparr>buffers := bs\<rparr>\<rparr> in
           if dless (to_double (allocated (pool s1) + nrBytes))
                (dmul (to_double (shmSize s1)) (MAX_SHM_USAGE_FRAC e))
           then
             (case construct_bytes nrBytes found of
                Inl x \<Rightarrow> (Inl x, s1)
              | Inr fresh \<Rightarrow>
                  returns
                    (wrapSHM
                       (s1\<lparr>seg_blocks := fresh # seg_blocks s1,
                           pool := (pool s1)\<lparr>allocated := allocated (pool s1) + nrBytes,
                                                sizes := emplace fresh nrBytes (sizes (pool s1))\<rparr>\<rparr>)
                       (Shm fresh) fresh nrBytes))
           else (Inr emptyCpuBuffer, s1))"

text \<open>
  \<open>getBufferFromPool(id, nrBytes)\<close>. \<open>localBuf\<close> is what \<open>memoryPool_->request(nrBytes)\<close>
  returns (the process-local fallback pool is a collaborator). An exception of
  \<open>requestSHM\<close> passes through.
\<close>

definition getBufferFromPool ::
  "env \<Rightarrow> state \<Rightarrow> StreamID \<Rightarrow> size_t \<Rightarrow> offset option \<Rightarrow> CpuBuffer
     \<Rightarrow> (error + CpuBuffer) \<times> state" where
  "getBufferFromPool e s sid nrBytes found localBuf =
     (if activatedStreams s sid = None
         \<or> (activatedStreams s sid \<noteq> None \<and> activatedStreams s sid = Some True)
      then
        (case requestSHM e s nrBytes found of
           (Inl x, s1) \<Rightarrow> (Inl x, s1)
         | (Inr shm, s1) \<Rightarrow> if cb_get shm = Null then (Inr localBuf, s1) else (Inr shm, s1))
      else (Inr localBuf, s))"

definition activateStream :: "state \<Rightarrow> StreamID \<Rightarrow> bool \<Rightarrow> state" where
  "activateStream s streamID active =
     s\<lparr>activatedStreams := (activatedStreams s)(streamID \<mapsto> active)\<rparr>"

text \<open>
  \<open>convert(const CpuBuffer&)\<close> returns a copy of the cached wrapper (one more
  reference, held by the caller) or an empty wrapper.
\<close>

definition convert :: "state \<Rightarrow> CpuBuffer \<Rightarrow> SharedPtr \<times> state" where
  "convert s ptr =
     (case map_of (ptrs s) (cb_get ptr) of
        Some w \<Rightarrow> (w, sp_copy w s)
      | None \<Rightarrow> (EmptySP, s))"

text \<open>
  \<open>createLocal(const SharedPtrIPC&)\<close>: \<open>ptrs_[pointer] = buffer\<close> copies the wrapper
  into the slot and then drops what the slot held.
\<close>

definition createLocal :: "state \<Rightarrow> SharedPtr \<Rightarrow> CpuBuffer \<times> state" where
  "createLocal s buffer =
     (let pointer = sp_get buffer;
          old = lookup_default EmptySP (ptrs s) pointer;
          s1 = sp_copy buffer (s\<lparr>ptrs := AList.update pointer buffer (ptrs s)\<rparr>);
          s2 = sp_release old s1
      in (CpuBuffer pointer DestroyLocal, s2))"

text \<open>\<open>destroyLocal(uint8_t*)\<close>: \<open>ptrs_.erase(ptr)\<close> destroys the cached wrapper, if any.\<close>

definition destroyLocal :: "state \<Rightarrow> addr \<Rightarrow> state" where
  "destroyLocal s ptr =
     (case map_of (ptrs s) ptr of
        None \<Rightarrow> s
      | Some w \<Rightarrow> sp_release w (s\<lparr>ptrs := AList.delete ptr (ptrs s)\<rparr>))"

text \<open>The death of the last copy of a local \<open>CpuBuffer\<close> runs its deleter.\<close>

definition dropCpuBuffer :: "state \<Rightarrow> CpuBuffer \<Rightarrow> state" where
  "dropCpuBuffer s b =
     (case cb_deleter b of
        DestroyLocal \<Rightarrow> destroyLocal s (cb_get b)
      | _ \<Rightarrow> s)"

text \<open>
  \<open>getBufferFromSharedPoolDirect\<close> is \<open>convert(requestSHM(nrBytes))\<close>: the temporary
  \<open>CpuBuffer\<close> dies at the end of the full expression, after \<open>convert\<close> has returned.
  An exception of \<open>requestSHM\<close> passes through.
\<close>

definition getBufferFromSharedPoolDirect ::
  "env \<Rightarrow> state \<Rightarrow> size_t \<Rightarrow> offset option \<Rightarrow> (error + SharedPtr) \<times> state" where
  "getBufferFromSharedPoolDirect e s nrBytes found =
     (case requestSHM e s nrBytes found of
        (Inl x, s1) \<Rightarrow> (Inl x, s1)
      | (Inr tmp, s1) \<Rightarrow>
          let (w, s2) = convert s1 tmp
          in (Inr w, dropCpuBuffer s2 tmp))"

text \<open>
  \<open>isBufferFromPool(buf)\<close> is \<open>return convert(buf);\<close>: the wrapper is tested for
  non-emptiness and the temporary copy is destroyed again.
\<close>

definition isBufferFromPool :: "state \<Rightarrow> CpuBuffer \<Rightarrow> bool \<times> state" where
  "isBufferFromPool s buf =
     (let (w, s1) = convert s buf in (sp_get w \<noteq> Null, sp_release w s1))"

section \<open>The GPU pools\<close>

text \<open>
  A \<open>GpuBuffer\<close> holds a pointer to a \<open>GpuBufferData\<close> (the record in the segment at
  an offset, or a copy on the process heap made by \<open>new\<close>), a deleter and the mapped
  CPU view. \<open>GDestroyLocal\<close> is the lambda of \<open>getGpuBufferFromPool\<close>,
  \<open>GDestroyLocalDelete\<close> the one of \<open>createLocal\<close> (which also deletes the copy).
\<close>

datatype gpu_ref = GNull | GSeg offset | GLocal GpuBufferData

datatype gpu_deleter = GNoDeleter | GDestroyLocal | GDestroyLocalDelete

datatype GpuBuffer = GpuBuffer (gpu_get: gpu_ref) (gpu_deleter: gpu_deleter) (gpu_mapped: CpuBuffer)

definition emptyGpuBuffer :: GpuBuffer where
  "emptyGpuBuffer = GpuBuffer GNull GNoDeleter emptyCpuBuffer"

text \<open>Reading \<open>ptr->handle\<close> through a \<open>GpuBufferData*\<close>.\<close>

fun read_handle :: "state \<Rightarrow> gpu_ref \<Rightarrow> u64 option" where
  "read_handle s GNull = None"
| "read_handle s (GSeg off) = Some (gb_handle (fst (seg_gpu s off)))"
| "read_handle s (GLocal d) = Some (gb_handle d)"

text \<open>
  The loop of \<open>findBuffer\<close> (lines 205-216): the first entry whose record carries our
  PID is erased from the vector and returned; the entries before and after it keep
  their order.
\<close>

fun findBuffer_loop ::
  "(offset \<Rightarrow> GpuBufferDataWithPID) \<Rightarrow> u64 \<Rightarrow> offset list \<Rightarrow> (offset \<times> offset list) option" where
  "findBuffer_loop g ourPid [] = None"
| "findBuffer_loop g ourPid (x # xs) =
     (if snd (g x) = ourPid then Some (x, xs)
      else (case findBuffer_loop g ourPid xs of
              None \<Rightarrow> None
            | Some (y, rest) \<Rightarrow> Some (y, x # rest)))"

text \<open>
  \<open>findBuffer(nrBytes, pool, offset_ptr_out, ptr_out)\<close>: \<open>Some (offset, ptr)\<close> stands for
  \<open>true\<close> with the two out-parameters written, \<open>None\<close> for \<open>false\<close> (the out-parameters
  are left as they were).
\<close>

definition findBuffer ::
  "env \<Rightarrow> state \<Rightarrow> size_t \<Rightarrow> pool_id \<Rightarrow> (offset \<times> addr) option \<times> state" where
  "findBuffer e s nrBytes pl =
     (let p = get_pool pl s;
          bs = emplace nrBytes [] (buffers p);
          ptrlist = lookup_default [] bs nrBytes
      in case findBuffer_loop (seg_gpu s) (getpid e) ptrlist of
           Some (off, rest) \<Rightarrow>
             (Some (off, Shm off),
              set_pool pl (p\<lparr>buffers := AList.update nrBytes rest bs\<rparr>) s)
         | None \<Rightarrow> (None, set_pool pl (p\<lparr>buffers := bs\<rparr>) s))"

text \<open>
  \<open>m[k] = w\<close> on a map of shared wrappers: the new wrapper is copied into the slot and
  the wrapper the slot held is dropped.
\<close>

definition assign_handle :: "u64 \<Rightarrow> SharedPtr \<Rightarrow> state \<Rightarrow> state" where
  "assign_handle h buffer s =
     (let old = lookup_default EmptySP (handlesGPU s) h;
          s1 = sp_copy buffer (s\<lparr>handlesGPU := AList.update h buffer (handlesGPU s)\<rparr>)
      in sp_release old s1)"

text \<open>
  \<open>getGpuBufferFromPool(nrBytes, deviceLocal)\<close>. \<open>vkAlloc\<close> is what
  \<open>vulkanUtil_->allocate\<close> returns, \<open>view\<close> what \<open>vulkanUtil_->map\<close> returns, \<open>fresh\<close> the
  offset of the record the segment manager constructs.
\<close>

definition wrapGPU :: "state \<Rightarrow> pool_id \<Rightarrow> offset \<Rightarrow> size_t \<Rightarrow> bool \<Rightarrow> GpuBuffer \<times> state" where
  "wrapGPU s pl offset_ptr nrBytes deviceLocal =
     (let h = gb_handle (fst (seg_gpu s offset_ptr));
          (buffer, s1) = sp_construct (Shm offset_ptr) pl offset_ptr nrBytes s;
          s2 = (if map_of (handlesGPU s1) h = None
                then sp_copy buffer (s1\<lparr>handlesGPU := emplace h buffer (handlesGPU s1)\<rparr>)
                else s1);
          s3 = sp_release buffer s2;
          s4 = (if deviceLocal then s3
                else s3\<lparr>gpuMappedBuffers := emplace h emptyCpuBuffer (gpuMappedBuffers s3)\<rparr>)
      in (GpuBuffer (GSeg offset_ptr) GDestroyLocal
            (if deviceLocal then emptyCpuBuffer
             else lookup_default emptyCpuBuffer (gpuMappedBuffers s4) h),
          s4))"

definition getGpuBufferFromPool ::
  "env \<Rightarrow> state \<Rightarrow> size_t \<Rightarrow> bool \<Rightarrow> u64 \<times> 32 word \<Rightarrow> CpuBuffer \<Rightarrow> offset \<Rightarrow> GpuBuffer \<times> state" where
  "getGpuBufferFromPool e s nrBytes deviceLocal vkAlloc view fresh =
     (if \<not> vk_active s then (emptyGpuBuffer, s)
      else
        let pl = (if deviceLocal then PoolGPUDeviceLocal else PoolGPU) in
        case findBuffer e s nrBytes pl of
          (Some (offset_ptr, ptr), s1) \<Rightarrow> wrapGPU s1 pl offset_ptr nrBytes deviceLocal
        | (None, s1) \<Rightarrow>
            if allocated (get_pool pl s1) + nrBytes < shmGPUSize s1
            then
              if fst vkAlloc = 0 then (emptyGpuBuffer, s1)
              else
                let p = get_pool pl s1;
                    s2 = s1\<lparr>gpuMappedBuffers := AList.update (fst vkAlloc) view (gpuMappedBuffers s1),
                            seg_blocks := fresh # seg_blocks s1,
                            seg_gpu := (seg_gpu s1)(fresh :=
                              (\<lparr>gb_handle = fst vkAlloc, gb_size = nrBytes,
                                gb_memoryTypeIndex = snd vkAlloc\<rparr>, getpid e))\<rparr>;
                    s3 = set_pool pl
                           (p\<lparr>allocated := allocated p + nrBytes,
                              sizes := emplace fresh nrBytes (sizes p)\<rparr>) s2
                in wrapGPU s3 pl fresh nrBytes deviceLocal
            else (emptyGpuBuffer, s1))"

definition convertGPU :: "state \<Rightarrow> GpuBuffer \<Rightarrow> SharedPtr \<times> state" where
  "convertGPU s ptr =
     (case read_handle s (gpu_get ptr) of
        None \<Rightarrow> (EmptySP, s)
      | Some h \<Rightarrow>
          (case map_of (handlesGPU s) h of
             Some w \<Rightarrow> (w, sp_copy w s)
           | None \<Rightarrow> (EmptySP, s)))"

text \<open>
  What the operating system answers when \<open>createLocal\<close> clones a handle: on Windows
  the result of \<open>DuplicateHandle\<close> and the handle it wrote, on POSIX the \<open>int\<close> that
  \<open>open\<close> returns (-1 on failure).
\<close>

record os_dup =
  dupResult :: bool
  tempHandle :: u64
  open_result :: int

text \<open>
  \<open>createLocal(const SharedPtrGPUIPC&)\<close>. \<open>view\<close> is what \<open>vulkanUtil_->map\<close> returns.
  The code dereferences the wrapper's pointer, so the wrapper must point at a record of
  the segment; for any other wrapper the behaviour of the code is undefined, and the
  last case below is only there to make the function total.
\<close>

definition createLocalGPU ::
  "env \<Rightarrow> state \<Rightarrow> SharedPtr \<Rightarrow> os_dup \<Rightarrow> CpuBuffer \<Rightarrow> GpuBuffer \<times> state" where
  "createLocalGPU e s buffer os view =
     (case sp_get buffer of
        Shm off \<Rightarrow>
          let pointer = seg_gpu s off;
              handle = gb_handle (fst pointer)
          in if map_of (gpuHandleProcMap s) handle = None \<and> win32 e \<and> \<not> dupResult os
             then (emptyGpuBuffer, s)
             else
               let newHandle =
                     (case map_of (gpuHandleProcMap s) handle of
                        None \<Rightarrow> (if win32 e then tempHandle os else of_int (open_result os))
                      | Some h \<Rightarrow> h);
                   s1 = s\<lparr>gpuHandleProcMap := AList.update handle newHandle (gpuHandleProcMap s)\<rparr>;
                   s2 = assign_handle newHandle buffer s1;
                   s3 = (if map_of (gpuMappedBuffers s2) newHandle = None
                         then s2\<lparr>gpuMappedBuffers := AList.update newHandle view (gpuMappedBuffers s2)\<rparr>
                         else s2)
               in (GpuBuffer
                     (GLocal \<lparr>gb_handle = newHandle, gb_size = gb_size (fst pointer),
                              gb_memoryTypeIndex = gb_memoryTypeIndex (fst pointer)\<rparr>)
                     GDestroyLocalDelete
                     (lookup_default emptyCpuBuffer (gpuMappedBuffers s3) newHandle),
                   s3)
      | _ \<Rightarrow> (emptyGpuBuffer, s))"

text \<open>\<open>destroyLocal(GpuBufferData*)\<close>: \<open>handlesGPU_.erase(handlePtr->handle)\<close>.\<close>

definition destroyLocalGPU :: "state \<Rightarrow> gpu_ref \<Rightarrow> state" where
  "destroyLocalGPU s handlePtr =
     (case read_handle s handlePtr of
        None \<Rightarrow> s
      | Some h \<Rightarrow>
          (case map_of (handlesGPU s) h of
             None \<Rightarrow> s
           | Some w \<Rightarrow> sp_release w (s\<lparr>handlesGPU := AList.delete h (handlesGPU s)\<rparr>)))"

definition dropGpuBuffer :: "state \<Rightarrow> GpuBuffer \<Rightarrow> state" where
  "dropGpuBuffer s b =
     (case gpu_deleter b of
        GNoDeleter \<Rightarrow> s
      | _ \<Rightarrow> destroyLocalGPU s (gpu_get b))"

section \<open>Attach and detach\<close>

text \<open>\<open>shm_->destroy_ptr\<close> of an anonymous object of the segment.\<close>

definition destroy_ptr :: "offset \<Rightarrow> offset list \<Rightarrow> offset list" where
  "destroy_ptr off blocks = remove1 off blocks"

text \<open>\<open>for (auto& size : pool->sizes) pool->allocated -= size.second;\<close>\<close>

definition subtract_sizes :: "MemoryPoolIPC \<Rightarrow> size_t" where
  "subtract_sizes p = fold (\<lambda>sz a. a - snd sz) (sizes p) (allocated p)"

text \<open>
  \<open>cleanPool(pool, clearAllocations)\<close>: every free-list entry that carries our PID has
  its GPU allocation freed and its record destroyed; the free-lists are cleared; with
  \<open>clearAllocations\<close> the registry is emptied as well.
\<close>

definition cleanPool :: "env \<Rightarrow> state \<Rightarrow> pool_id \<Rightarrow> bool \<Rightarrow> state" where
  "cleanPool e s pl clearAllocations =
     (let p = get_pool pl s;
          own = (if vk_active s
                 then filter (\<lambda>buffer. snd (seg_gpu s buffer) = getpid e)
                        (concat (map snd (buffers p)))
                 else []);
          s1 = s\<lparr>vk_freed := vk_freed s @ map (\<lambda>buffer. gb_handle (fst (seg_gpu s buffer))) own,
                  seg_blocks := fold destroy_ptr own (seg_blocks s)\<rparr>;
          p1 = p\<lparr>buffers := []\<rparr>;
          p2 = (if clearAllocations then p1\<lparr>allocated := subtract_sizes p1, sizes := []\<rparr> else p1)
      in set_pool pl p2 s1)"

text \<open>
  The constructor, applied to a state whose shared part is the segment as
  \<open>find_or_construct\<close> finds or constructs it. The members are initialised, then the
  process registers with the auditor or, when the audit fails, invalidates the
  segment. The auditing thread is not part of this sequential model, so
  \<open>enableAuditor\<close> has no effect here.
\<close>

definition MemoryPoolIPCHybrid_ctor :: "env \<Rightarrow> state \<Rightarrow> size_t \<Rightarrow> size_t \<Rightarrow> bool \<Rightarrow> state" where
  "MemoryPoolIPCHybrid_ctor e shm shmSize0 shmGPUSize0 enableAuditor =
     (let s = shm\<lparr>shmSize := shmSize0, shmGPUSize := shmGPUSize0, ptrs := [],
                  handlesGPU := [], gpuHandleProcMap := [], gpuMappedBuffers := [],
                  activatedStreams := Map.empty, stopSignal := False\<rparr>
      in if audit s
         then s\<lparr>auditor := (auditor s)\<lparr>processes := processes (auditor s) @ [getpid e]\<rparr>\<rparr>
         else invalidate s)"

text \<open>The destructor's loop that erases the first process record that \<open>isSelf()\<close>.\<close>

fun erase_self :: "u64 \<Rightarrow> u64 list \<Rightarrow> u64 list" where
  "erase_self self [] = []"
| "erase_self self (p # ps) = (if p = self then ps else p # erase_self self ps)"

text \<open>
  The destructor, in two halves. \<open>detach_cpu\<close> is lines 104-143: the local CPU handles
  are dropped, the process leaves the auditor and, when it was the last one, the
  segment is invalidated and the CPU pool is emptied. \<open>detach_gpu\<close> is lines 145-161:
  the local GPU caches are cleared, the two GPU pools are cleaned and every duplicated
  handle of \<open>gpuHandleProcMap_\<close> is freed through the graphics utility. (Joining the
  auditing thread has no counterpart in this sequential model.)
\<close>

definition detach_cpu :: "env \<Rightarrow> state \<Rightarrow> state" where
  "detach_cpu e s =
     (let s1 = fold sp_release (map snd (ptrs s)) (s\<lparr>ptrs := []\<rparr>);
          s2 = s1\<lparr>stopSignal := True\<rparr>;
          procs1 = erase_self (getpid e) (processes (auditor s2));
          procs2 = (if force_clean s2 then [] else procs1);
          s3 = s2\<lparr>auditor := (auditor s2)\<lparr>processes := procs2\<rparr>\<rparr>
      in if processes (auditor s3) = []
         then
           let s' = invalidate s3 in
           s'\<lparr>seg_blocks := fold destroy_ptr (concat (map snd (buffers (pool s')))) (seg_blocks s'),
              pool := (pool s')\<lparr>allocated := subtract_sizes (pool s'),
                                 buffers := [], sizes := []\<rparr>\<rparr>
         else s3)"

definition detach_gpu :: "env \<Rightarrow> state \<Rightarrow> state" where
  "detach_gpu e s =
     (let s5 = fold sp_release (map snd (handlesGPU s)) (s\<lparr>handlesGPU := []\<rparr>);
          s6 = s5\<lparr>gpuMappedBuffers := []\<rparr>;
          clearAllocations = (processes (auditor s6) = []);
          s7 = cleanPool e s6 PoolGPU clearAllocations;
          s8 = cleanPool e s7 PoolGPUDeviceLocal clearAllocations
      in s8\<lparr>vk_freed := vk_freed s8 @ map snd (gpuHandleProcMap s8)\<rparr>)"

definition MemoryPoolIPCHybrid_dtor :: "env \<Rightarrow> state \<Rightarrow> state" where
  "MemoryPoolIPCHybrid_dtor e s = detach_gpu e (detach_cpu e s)"

text \<open>
  A segment in which the four named objects have just been constructed, and nothing
  else: the state the first attaching process starts from.
\<close>

definition emptyPool :: MemoryPoolIPC where
  "emptyPool = \<lparr>buffers = [], sizes = [], allocated = 0\<rparr>"

definition newSegment :: state where
  "newSegment =
     \<lparr>pool = emptyPool, poolGPU = emptyPool, poolGPUDeviceLocal = emptyPool,
      auditor = \<lparr>processes = [], invalid = False\<rparr>,
      seg_blocks = [], seg_gpu = (\<lambda>off. (\<lparr>gb_handle = 0, gb_size = 0, gb_memoryTypeIndex = 0\<rparr>, 0)),
      seg_ctrl = Map.empty, seg_next = 0,
      shmSize = 0, shmGPUSize = 0, ptrs = [], handlesGPU = [], gpuHandleProcMap = [],
      gpuMappedBuffers = [], activatedStreams = Map.empty, force_clean = False,
      stopSignal = False, vk_active = True, vk_freed = [], os_alive = (\<lambda>p. True)\<rparr>"

section \<open>Well-formed states\<close>

text \<open>
  The offsets on the free-lists of the CPU pool, and what holds of the cache, the
  control blocks and the free-lists in every state the CPU operations can produce: no
  offset is twice on the free-lists; free-listed offsets are objects of the segment;
  a live control block was constructed earlier, reclaims into the CPU pool, points at
  the block of its offset, has a positive use count and an offset that is an object of
  the segment and not on a free-list; two live control blocks never share an offset;
  and a cache entry holds a wrapper of a live control block for that address.
\<close>

definition free_offsets :: "state \<Rightarrow> offset list" where
  "free_offsets s = concat (map snd (buffers (pool s)))"

definition cache_inv :: "state \<Rightarrow> bool" where
  "cache_inv s \<longleftrightarrow>
     distinct (free_offsets s)
   \<and> set (free_offsets s) \<subseteq> set (seg_blocks s)
   \<and> (\<forall>i c. seg_ctrl s i = Some c \<longrightarrow>
          i < seg_next s \<and> rc_pool c = PoolCPU \<and> c_ptr c = Shm (rc_offset c) \<and> 1 \<le> use_count c
        \<and> rc_offset c \<in> set (seg_blocks s) \<and> rc_offset c \<notin> set (free_offsets s))
   \<and> (\<forall>i j c d. seg_ctrl s i = Some c \<and> seg_ctrl s j = Some d \<and> rc_offset c = rc_offset d \<longrightarrow> i = j)
   \<and> (\<forall>a w. map_of (ptrs s) a = Some w \<longrightarrow> (\<exists>i c. w = SP i a \<and> seg_ctrl s i = Some c \<and> c_ptr c = a))"

text \<open>
  The states reachable from an attach to a new segment through the CPU operations of
  this process. A block the segment manager finds is at an offset of no live
  object. Wrappers are also copied and destroyed by whoever holds them (the caller of
  \<open>convert\<close>, a message in flight, another process); a holder destroys a reference of
  its own, so either another reference remains or the cache holds none for that block.
\<close>

inductive reachable :: "env \<Rightarrow> state \<Rightarrow> bool" for e :: env where
  attach: "reachable e (MemoryPoolIPCHybrid_ctor e newSegment cpuBudget gpuBudget enableAuditor)"
| request: "reachable e s \<Longrightarrow> found \<notin> Some ` set (seg_blocks s) \<Longrightarrow>
     reachable e (snd (requestSHM e s n found))"
| get_buffer: "reachable e s \<Longrightarrow> found \<notin> Some ` set (seg_blocks s) \<Longrightarrow>
     reachable e (snd (getBufferFromPool e s sid n found localBuf))"
| direct: "reachable e s \<Longrightarrow> found \<notin> Some ` set (seg_blocks s) \<Longrightarrow>
     reachable e (snd (getBufferFromSharedPoolDirect e s n found))"
| drop: "reachable e s \<Longrightarrow> reachable e (dropCpuBuffer s b)"
| convert: "reachable e s \<Longrightarrow> reachable e (snd (convert s b))"
| probe: "reachable e s \<Longrightarrow> reachable e (snd (isBufferFromPool s b))"
| create_local: "reachable e s \<Longrightarrow> seg_ctrl s i = Some c \<Longrightarrow>
     reachable e (snd (createLocal s (SP i (c_ptr c))))"
| activate: "reachable e s \<Longrightarrow> reachable e (activateStream s sid active)"
| holder_copies: "reachable e s \<Longrightarrow> reachable e (sp_copy w s)"
| holder_releases: "reachable e s \<Longrightarrow> seg_ctrl s i = Some c \<Longrightarrow>
     1 < use_count c \<or> map_of (ptrs s) (c_ptr c) = None \<Longrightarrow>
     reachable e (sp_release (SP i p) s)"

section \<open>Concrete configurations\<close>

text \<open>
  The double that the literal \<open>0.9\<close> denotes: the nearest double to 9/10, which is
  \<open>8106479329266893 * 2^-53\<close> (bit pattern \<open>0x3FECCCCCCCCCCCCD\<close>).
\<close>

definition double_0_9 :: double where
  "double_0_9 = Double 8106479329266893 53"

text \<open>
  A POSIX and a Windows process with PID 100 and \<open>MAX_SHM_USAGE_FRAC = 0.9\<close>; a local
  fallback buffer; and the state of the first process attached to a new segment with
  a given CPU budget and a GPU budget of 16 MiB.
\<close>

definition posix_env :: env where
  "posix_env = \<lparr>MAX_SHM_USAGE_FRAC = double_0_9, win32 = False, getpid = 100\<rparr>"

definition windows_env :: env where
  "windows_env = \<lparr>MAX_SHM_USAGE_FRAC = double_0_9, win32 = True, getpid = 100\<rparr>"

definition heapBuf :: CpuBuffer where
  "heapBuf = CpuBuffer (Heap 7) External"

definition attached :: "size_t \<Rightarrow> state" where
  "attached cpuBudget = MemoryPoolIPCHybrid_ctor posix_env newSegment cpuBudget 16777216 False"

text \<open>A process attached to a segment that had already been invalidated.\<close>

definition attached_invalid :: state where
  "attached_invalid =
     MemoryPoolIPCHybrid_ctor posix_env (invalidate newSegment) 1048576 16777216 False"

text \<open>
  A state with GPU buffers in it. The host-visible GPU pool has the free-list
  \<open>[10, 11, 12]\<close> for 4096 bytes and \<open>[13]\<close> for 8192 bytes; the records at offsets 10
  and 13 were allocated by process 200, those at 11 and 12 by process 100 (us). The
  record at offset 20 (handle 5 of process 200) is in use: its wrapper, control block
  0, is held by process 200 and has been sent to us. Handle 7 of process 200 has
  already been duplicated into this process as handle 70 and mapped.
\<close>

definition gpu_record :: "offset \<Rightarrow> GpuBufferDataWithPID" where
  "gpu_record off =
     (\<lparr>gb_handle = (if off = 20 then 5 else of_int off),
       gb_size = (if off = 13 then 8192 else 4096),
       gb_memoryTypeIndex = 0\<rparr>,
      if off = 10 \<or> off = 13 \<or> off = 20 then 200 else 100)"

definition gpu_demo :: state where
  "gpu_demo =
     (attached 1048576)
       \<lparr>poolGPU := \<lparr>buffers = [(4096, [10, 11, 12]), (8192, [13])],
                    sizes = [(10, 4096), (11, 4096), (12, 4096), (13, 8192), (20, 4096)],
                    allocated = 24576\<rparr>,
        seg_blocks := [10, 11, 12, 13, 20],
        seg_gpu := gpu_record,
        seg_ctrl := [0 \<mapsto> \<lparr>use_count = 1, c_ptr = Shm 20, rc_pool = PoolGPU,
                               rc_offset = 20, rc_size = 4096\<rparr>],
        seg_next := 1,
        gpuHandleProcMap := [(7, 70)],
        gpuMappedBuffers := [(11, CpuBuffer (Heap 11) External), (12, CpuBuffer (Heap 12) External),
                             (70, CpuBuffer (Heap 70) External)]\<rparr>"

definition failed_dup :: os_dup where
  "failed_dup = \<lparr>dupResult = False, tempHandle = 0, open_result = - 1\<rparr>"

definition ok_dup :: os_dup where
  "ok_dup = \<lparr>dupResult = True, tempHandle = 77, open_result = 77\<rparr>"

text \<open>
  Two requests of 4096 bytes in a new segment (offsets 0 and 4096), and the state after
  both buffers have been dropped.
\<close>

definition two_allocs :: state where
  "two_allocs =
     snd (requestSHM posix_env (snd (requestSHM posix_env (attached 1048576) 4096 (Some 0)))
            4096 (Some 4096))"

definition both_dropped :: state where
  "both_dropped = destroyLocal (destroyLocal two_allocs (Shm 0)) (Shm 4096)"

text \<open>
  One request of 16 bytes (the buffer it returns and the state it leaves); \<open>convert\<close>
  of the buffer; \<open>createLocal\<close> of the wrapper, which
  makes a second local handle of the same allocation; and the drop of that second
  handle.
\<close>

definition one_alloc :: "CpuBuffer \<times> state" where
  "one_alloc =
     (case requestSHM posix_env (attached 1048576) 16 (Some 0) of
        (Inr b, s) \<Rightarrow> (b, s)
      | (Inl x, s) \<Rightarrow> (emptyCpuBuffer, s))"

definition one_alloc_conv :: "SharedPtr \<times> state" where
  "one_alloc_conv = convert (snd one_alloc) (fst one_alloc)"

definition second_handle :: "CpuBuffer \<times> state" where
  "second_handle = createLocal (snd one_alloc_conv) (fst one_alloc_conv)"

definition second_dropped :: state where
  "second_dropped = dropCpuBuffer (snd second_handle) (fst second_handle)"

section \<open>Frame lemmas\<close>

lemma returns_simps [simp]:
  "fst (returns r) = Inr (fst r)"
  "snd (returns r) = snd r"
  by (simp_all add: returns_def)

lemma reclaim_fields [simp]:
  "seg_blocks (reclaim c s) = seg_blocks s"
  "seg_ctrl (reclaim c s) = seg_ctrl s"
  "seg_next (reclaim c s) = seg_next s"
  "ptrs (reclaim c s) = ptrs s"
  "auditor (reclaim c s) = auditor s"
  "shmSize (reclaim c s) = shmSize s"
  "activatedStreams (reclaim c s) = activatedStreams s"
  "handlesGPU (reclaim c s) = handlesGPU s"
  "gpuHandleProcMap (reclaim c s) = gpuHandleProcMap s"
  "gpuMappedBuffers (reclaim c s) = gpuMappedBuffers s"
  "vk_freed (reclaim c s) = vk_freed s"
  by (cases "rc_pool c"; simp add: reclaim_def Let_def)+

lemma reclaim_pool [simp]:
  "allocated (get_pool q (reclaim c s)) = allocated (get_pool q s)"
  "sizes (get_pool q (reclaim c s)) = sizes (get_pool q s)"
  by (cases "rc_pool c"; cases q; simp add: reclaim_def Let_def)+

lemma reclaim_cpu [simp]:
  "allocated (pool (reclaim c s)) = allocated (pool s)"
  "sizes (pool (reclaim c s)) = sizes (pool s)"
  using reclaim_pool [of PoolCPU c s] by simp_all

lemma sp_release_cpu [simp]:
  "allocated (pool (sp_release w s)) = allocated (pool s)"
  "sizes (pool (sp_release w s)) = sizes (pool s)"
  "seg_blocks (sp_release w s) = seg_blocks s"
  "ptrs (sp_release w s) = ptrs s"
  "auditor (sp_release w s) = auditor s"
  "shmSize (sp_release w s) = shmSize s"
  "activatedStreams (sp_release w s) = activatedStreams s"
  by (simp_all add: sp_release_def split: SharedPtr.splits option.splits)

lemma sp_copy_fields [simp]:
  "pool (sp_copy w s) = pool s"
  "seg_blocks (sp_copy w s) = seg_blocks s"
  "ptrs (sp_copy w s) = ptrs s"
  "auditor (sp_copy w s) = auditor s"
  "shmSize (sp_copy w s) = shmSize s"
  "activatedStreams (sp_copy w s) = activatedStreams s"
  by (simp_all add: sp_copy_def split: SharedPtr.splits option.splits)

lemma wrapSHM_fst [simp]: "fst (wrapSHM s p off n) = CpuBuffer p DestroyLocal"
  by (simp add: wrapSHM_def Let_def sp_construct_def split: prod.splits)

lemma wrapSHM_cpu [simp]:
  "allocated (pool (snd (wrapSHM s p off n))) = allocated (pool s)"
  "sizes (pool (snd (wrapSHM s p off n))) = sizes (pool s)"
  "seg_blocks (snd (wrapSHM s p off n)) = seg_blocks s"
  "auditor (snd (wrapSHM s p off n)) = auditor s"
  "shmSize (snd (wrapSHM s p off n)) = shmSize s"
  "activatedStreams (snd (wrapSHM s p off n)) = activatedStreams s"
  by (simp_all add: wrapSHM_def Let_def sp_construct_def split: prod.splits)

lemma lookup_default_emplace [simp]:
  "lookup_default d (emplace k d m) k = lookup_default d m k"
  by (auto simp: lookup_default_def emplace_def map_add_def split: option.splits)

section \<open>Rounding to double precision\<close>

declare bitlen.simps [simp del]

lemma bitlen_le: "bitlen p \<le> k \<longleftrightarrow> p < 2 ^ k"
proof (induction p arbitrary: k rule: bitlen.induct)
  case (1 n)
  show ?case
  proof (cases "n = 0")
    case True
    then show ?thesis by (simp add: bitlen.simps)
  next
    case False
    have b: "bitlen n = Suc (bitlen (n div 2))" using False by (subst bitlen.simps) simp
    show ?thesis
    proof (cases k)
      case 0
      then show ?thesis using False b by simp
    next
      case (Suc j)
      have "bitlen (n div 2) \<le> j \<longleftrightarrow> n div 2 < 2 ^ j" using 1 [OF False] .
      moreover have "n div 2 < 2 ^ j \<longleftrightarrow> n < 2 ^ Suc j" by auto
      ultimately show ?thesis using b Suc by simp
    qed
  qed
qed

lemma bitlen_upper: "p < 2 ^ bitlen p"
  using bitlen_le [of p "bitlen p"] by simp

lemma bitlen_lower: "0 < bitlen p \<Longrightarrow> 2 ^ (bitlen p - 1) \<le> p"
  using bitlen_le [of p "bitlen p - 1"] by (simp add: not_less [symmetric])


lemma round_even_0 [simp]: "round_even 0 p = p"
  by (simp add: round_even_def)

lemma round_even_lower: "p div 2 ^ k \<le> round_even k p"
  by (simp add: round_even_def Let_def)

lemma round_even_upper: "round_even k p \<le> p div 2 ^ k + 1"
  by (simp add: round_even_def Let_def)

lemma round_even_exact: "p mod 2 ^ k = 0 \<Longrightarrow> round_even k p * 2 ^ k = p"
  by (auto simp add: round_even_def Let_def)

text \<open>Rounding does not cross a representable number.\<close>

lemma round_bits_ge:
  assumes t: "0 < t" and c: "c \<le> 2 ^ t" and le: "c * 2 ^ j \<le> a"
  shows "c * 2 ^ j \<le> round_bits t a"
proof (cases "bitlen a \<le> t")
  case True
  then show ?thesis using le by (simp add: round_bits_def)
next
  case False
  define k where "k = bitlen a - t"
  have k: "0 < k" "bitlen a = t + k" using False by (simp_all add: k_def)
  have b1: "bitlen a - 1 = (t - 1) + k" using k t by simp
  have "0 < bitlen a" using k by simp
  then have "2 ^ (bitlen a - 1) \<le> a" by (rule bitlen_lower)
  then have lo: "2 ^ (t - 1) * 2 ^ k \<le> a" by (simp only: b1 power_add)
  have fl: "(a div 2 ^ k) * 2 ^ k \<le> round_bits t a"
    using round_even_lower [of a k] by (simp add: round_bits_def k_def [symmetric])
  have "c * 2 ^ j \<le> (a div 2 ^ k) * 2 ^ k"
  proof (cases "k \<le> j")
    case True
    then obtain d where j: "j = k + d" using le_Suc_ex by blast
    have e: "c * 2 ^ j = (c * 2 ^ d) * 2 ^ k" by (simp add: j power_add)
    have "(c * 2 ^ d) * 2 ^ k \<le> a" using le by (simp only: e)
    then have "c * 2 ^ d \<le> a div 2 ^ k" by (simp add: less_eq_div_iff_mult_less_eq)
    then have "(c * 2 ^ d) * 2 ^ k \<le> (a div 2 ^ k) * 2 ^ k" by (rule mult_right_mono) simp
    then show ?thesis by (simp only: e)
  next
    case False
    then obtain d where kj: "k = j + 1 + d" using le_Suc_ex [of "j + 1" k] by auto
    have "c * 2 ^ j \<le> 2 ^ t * 2 ^ j" using c by (rule mult_right_mono) simp
    also have "\<dots> = 2 ^ (t - 1) * 2 ^ (j + 1)" using t by (cases t) simp_all
    also have "\<dots> \<le> 2 ^ (t - 1) * 2 ^ k"
      by (rule mult_left_mono) (simp_all add: kj)
    finally have r: "c * 2 ^ j \<le> 2 ^ (t - 1) * 2 ^ k" .
    have "(2::nat) ^ (t - 1) \<le> a div 2 ^ k"
      using lo by (simp add: less_eq_div_iff_mult_less_eq)
    then have "(2::nat) ^ (t - 1) * 2 ^ k \<le> (a div 2 ^ k) * 2 ^ k" by (rule mult_right_mono) simp
    then show ?thesis using r by (rule order_trans [rotated])
  qed
  then show ?thesis using fl by (rule order_trans)
qed

lemma round_bits_le:
  assumes t: "0 < t" and c: "c \<le> 2 ^ t" and le: "a \<le> c * 2 ^ j"
  shows "round_bits t a \<le> c * 2 ^ j"
proof (cases "bitlen a \<le> t")
  case True
  then show ?thesis using le by (simp add: round_bits_def)
next
  case False
  define k where "k = bitlen a - t"
  have k: "0 < k" "bitlen a = t + k" using False by (simp_all add: k_def)
  have b1: "bitlen a - 1 = (t - 1) + k" using k t by simp
  have "0 < bitlen a" using k by simp
  then have "2 ^ (bitlen a - 1) \<le> a" by (rule bitlen_lower)
  then have lo: "2 ^ (t - 1) * 2 ^ k \<le> a" by (simp only: b1 power_add)
  have r53: "round_bits t a = round_even k a * 2 ^ k" by (simp add: round_bits_def k_def [symmetric])
  show ?thesis
  proof (cases "a mod 2 ^ k = 0")
    case True
    then show ?thesis using le by (simp add: r53 round_even_exact)
  next
    case nz: False
    have up: "round_bits t a \<le> (a div 2 ^ k + 1) * 2 ^ k"
      unfolding r53 using round_even_upper [of k a] by (intro mult_right_mono) simp_all
    show ?thesis
    proof (cases "k \<le> j")
      case True
      then obtain d where j: "j = k + d" using le_Suc_ex by blast
      have e: "c * 2 ^ j = (c * 2 ^ d) * 2 ^ k" by (simp add: j power_add)
      have "a \<noteq> (c * 2 ^ d) * 2 ^ k" using nz by auto
      then have "a < (c * 2 ^ d) * 2 ^ k" using le e by simp
      then have "a div 2 ^ k < c * 2 ^ d" by (simp add: div_less_iff_less_mult)
      then have "a div 2 ^ k + 1 \<le> c * 2 ^ d" by simp
      then have "(a div 2 ^ k + 1) * 2 ^ k \<le> (c * 2 ^ d) * 2 ^ k" by (intro mult_right_mono) simp_all
      then have "round_bits t a \<le> (c * 2 ^ d) * 2 ^ k" using up by (rule order_trans [rotated])
      then show ?thesis by (simp only: e)
    next
      case False
      then obtain d where kj: "k = j + 1 + d" using le_Suc_ex [of "j + 1" k] by auto
      have "c * 2 ^ j \<le> 2 ^ t * 2 ^ j" using c by (rule mult_right_mono) simp
      also have "\<dots> = 2 ^ (t - 1) * 2 ^ (j + 1)" using t by (cases t) simp_all
      also have "\<dots> \<le> 2 ^ (t - 1) * 2 ^ k"
        by (rule mult_left_mono) (simp_all add: kj)
      finally have "c * 2 ^ j \<le> 2 ^ (t - 1) * 2 ^ k" .
      then have "a = 2 ^ (t - 1) * 2 ^ k" using lo le by simp
      then have "a mod 2 ^ k = 0" by simp
      then show ?thesis using nz by simp
    qed
  qed
qed

lemma round53_ge: "c \<le> 2 ^ 53 \<Longrightarrow> c * 2 ^ j \<le> a \<Longrightarrow> c * 2 ^ j \<le> round53 a"
  unfolding round53_def by (rule round_bits_ge) simp_all

lemma round53_le: "c \<le> 2 ^ 53 \<Longrightarrow> a \<le> c * 2 ^ j \<Longrightarrow> round53 a \<le> c * 2 ^ j"
  unfolding round53_def by (rule round_bits_le) simp_all

lemma round53_exact: "c \<le> 2 ^ 53 \<Longrightarrow> round53 (c * 2 ^ j) = c * 2 ^ j"
  using round53_ge [of c j "c * 2 ^ j"] round53_le [of c "c * 2 ^ j" j] by simp

lemma round53_exact0: "c \<le> 2 ^ 53 \<Longrightarrow> round53 c = c"
  using round53_exact [of c 0] by simp


lemma dless_iff: "dless a b \<longleftrightarrow> dval a < dval b"
proof -
  have "dval a < dval b \<longleftrightarrow> real (mant a) * 2 ^ shift b < real (mant b) * 2 ^ shift a"
    by (simp add: dval_def field_simps)
  also have "\<dots> \<longleftrightarrow> real (mant a * 2 ^ shift b) < real (mant b * 2 ^ shift a)" by simp
  also have "\<dots> \<longleftrightarrow> mant a * 2 ^ shift b < mant b * 2 ^ shift a" by (simp only: of_nat_less_iff)
  finally show ?thesis by (simp add: dless_def)
qed

lemma dval_to_double: "unat w \<le> 2 ^ 53 \<Longrightarrow> dval (to_double w) = real (unat w)"
  by (simp add: dval_def to_double_def round53_exact0)

text \<open>The rounded product against an integer below 2^53.\<close>

lemma dmul_ge:
  assumes "M \<le> 2 ^ 53" and "real M \<le> dval a * dval b"
  shows "real M \<le> dval (dmul a b)"
proof -
  have "real M * 2 ^ (shift a + shift b) \<le> real (mant a * mant b)"
    using assms(2) by (simp add: dval_def field_simps power_add)
  then have "real (M * 2 ^ (shift a + shift b)) \<le> real (mant a * mant b)" by simp
  then have "M * 2 ^ (shift a + shift b) \<le> mant a * mant b" by (simp only: of_nat_le_iff)
  then have "M * 2 ^ (shift a + shift b) \<le> round53 (mant a * mant b)"
    by (rule round53_ge [OF assms(1)])
  then have "real (M * 2 ^ (shift a + shift b)) \<le> real (round53 (mant a * mant b))"
    by (simp only: of_nat_le_iff)
  then show ?thesis by (simp add: dval_def dmul_def field_simps)
qed

lemma dmul_le:
  assumes "M \<le> 2 ^ 53" and "dval a * dval b \<le> real M"
  shows "dval (dmul a b) \<le> real M"
proof -
  have "real (mant a * mant b) \<le> real M * 2 ^ (shift a + shift b)"
    using assms(2) by (simp add: dval_def field_simps power_add)
  then have "real (mant a * mant b) \<le> real (M * 2 ^ (shift a + shift b))" by simp
  then have "mant a * mant b \<le> M * 2 ^ (shift a + shift b)" by (simp only: of_nat_le_iff)
  then have "round53 (mant a * mant b) \<le> M * 2 ^ (shift a + shift b)"
    by (rule round53_le [OF assms(1)])
  then have "real (round53 (mant a * mant b)) \<le> real (M * 2 ^ (shift a + shift b))"
    by (simp only: of_nat_le_iff)
  then show ?thesis by (simp add: dval_def dmul_def field_simps)
qed

text \<open>
  The budget test against the exact product, for sizes that convert exactly: it
  passes when the sum is at least one below the product and fails when the sum has
  reached the product.
\<close>

lemma budget_pass:
  assumes a: "unat a < 2 ^ 53" and b: "unat B \<le> 2 ^ 53"
    and le: "real (unat a) + 1 \<le> real (unat B) * dval f"
  shows "dless (to_double a) (dmul (to_double B) f)"
proof -
  have "real (unat a + 1) \<le> dval (to_double B) * dval f"
    using le by (simp add: dval_to_double [OF b])
  moreover have "unat a + 1 \<le> 2 ^ 53" using a by simp
  ultimately have "real (unat a + 1) \<le> dval (dmul (to_double B) f)"
    by (rule dmul_ge [rotated])
  moreover have "dval (to_double a) = real (unat a)"
    using a by (simp add: dval_to_double)
  ultimately show ?thesis by (simp add: dless_iff)
qed

lemma budget_fail:
  assumes a: "unat a \<le> 2 ^ 53" and b: "unat B \<le> 2 ^ 53"
    and le: "real (unat B) * dval f \<le> real (unat a)"
  shows "\<not> dless (to_double a) (dmul (to_double B) f)"
proof -
  have "dval (to_double B) * dval f \<le> real (unat a)"
    using le by (simp add: dval_to_double [OF b])
  with a have "dval (dmul (to_double B) f) \<le> real (unat a)"
    by (rule dmul_le)
  moreover have "dval (to_double a) = real (unat a)"
    using a by (simp add: dval_to_double)
  ultimately show ?thesis by (simp add: dless_iff)
qed

text \<open>The same two facts in the form a run on concrete sizes uses.\<close>

lemma budget_pass_run:
  "unat a < 2 ^ 53 \<Longrightarrow> unat B \<le> 2 ^ 53 \<Longrightarrow> (unat a + 1) * 2 ^ k \<le> unat B * m \<Longrightarrow>
     dless (to_double a) (dmul (to_double B) (Double m k)) = True"
proof -
  assume a: "unat a < 2 ^ 53" and b: "unat B \<le> 2 ^ 53" and le: "(unat a + 1) * 2 ^ k \<le> unat B * m"
  from le have "real ((unat a + 1) * 2 ^ k) \<le> real (unat B * m)" by (simp only: of_nat_le_iff)
  then have "real (unat a) + 1 \<le> real (unat B) * dval (Double m k)"
    by (simp add: dval_def field_simps)
  with a b show ?thesis by (simp add: budget_pass)
qed

lemma budget_fail_run:
  "unat a \<le> 2 ^ 53 \<Longrightarrow> unat B \<le> 2 ^ 53 \<Longrightarrow> unat B * m \<le> unat a * 2 ^ k \<Longrightarrow>
     dless (to_double a) (dmul (to_double B) (Double m k)) = False"
proof -
  assume a: "unat a \<le> 2 ^ 53" and b: "unat B \<le> 2 ^ 53" and le: "unat B * m \<le> unat a * 2 ^ k"
  from le have "real (unat B * m) \<le> real (unat a * 2 ^ k)" by (simp only: of_nat_le_iff)
  then have "real (unat B) * dval (Double m k) \<le> real (unat a)"
    by (simp add: dval_def field_simps)
  with a b show ?thesis by (simp add: budget_fail)
qed

text \<open>The definitions a run on a concrete state unfolds.\<close>

lemmas run_defs = attached_def MemoryPoolIPCHybrid_ctor_def newSegment_def emptyPool_def audit_def
        isValid_def processesAlive_def lookup_default_def emplace_def requestSHM_def wrapSHM_def
        sp_construct_def sp_copy_def sp_release_def reclaim_def Let_def posix_env_def emptyCpuBuffer_def
        returns_def construct_bytes_def double_0_9_def budget_pass_run budget_fail_run


lemma frac_posix_env: "MAX_SHM_USAGE_FRAC posix_env = Double 8106479329266893 53"
  by (simp add: posix_env_def double_0_9_def)

section \<open>The budget test of requestSHM\<close>




section \<open>The allocation path and the invalid flag\<close>

lemma auditor_out:
  "(s\<lparr>auditor := a\<rparr>)\<lparr>seg_ctrl := x1\<rparr> = (s\<lparr>seg_ctrl := x1\<rparr>)\<lparr>auditor := a\<rparr>"
  "(s\<lparr>auditor := a\<rparr>)\<lparr>seg_next := x2\<rparr> = (s\<lparr>seg_next := x2\<rparr>)\<lparr>auditor := a\<rparr>"
  "(s\<lparr>auditor := a\<rparr>)\<lparr>ptrs := x3\<rparr> = (s\<lparr>ptrs := x3\<rparr>)\<lparr>auditor := a\<rparr>"
  "(s\<lparr>auditor := a\<rparr>)\<lparr>seg_blocks := x4\<rparr> = (s\<lparr>seg_blocks := x4\<rparr>)\<lparr>auditor := a\<rparr>"
  "(s\<lparr>auditor := a\<rparr>)\<lparr>pool := x5\<rparr> = (s\<lparr>pool := x5\<rparr>)\<lparr>auditor := a\<rparr>"
  by simp_all

lemma reclaim_auditor_upd:
  "reclaim c (s\<lparr>auditor := a\<rparr>) = (reclaim c s)\<lparr>auditor := a\<rparr>"
  by (cases "rc_pool c"; simp add: reclaim_def Let_def)

lemma sp_release_auditor_upd:
  "sp_release w (s\<lparr>auditor := a\<rparr>) = (sp_release w s)\<lparr>auditor := a\<rparr>"
  by (simp add: sp_release_def reclaim_auditor_upd auditor_out split: SharedPtr.splits option.splits)

lemma sp_copy_auditor_upd:
  "sp_copy w (s\<lparr>auditor := a\<rparr>) = (sp_copy w s)\<lparr>auditor := a\<rparr>"
  by (simp add: sp_copy_def split: SharedPtr.splits option.splits)

lemma wrapSHM_auditor_upd:
  "wrapSHM (s\<lparr>auditor := a\<rparr>) p off n =
     (fst (wrapSHM s p off n), (snd (wrapSHM s p off n))\<lparr>auditor := a\<rparr>)"
  by (simp add: wrapSHM_def sp_construct_def Let_def sp_release_auditor_upd
      sp_copy_auditor_upd auditor_out)

lemma requestSHM_auditor_upd:
  "requestSHM e (s\<lparr>auditor := a\<rparr>) n found =
     (fst (requestSHM e s n found), (snd (requestSHM e s n found))\<lparr>auditor := a\<rparr>)"
  by (simp add: requestSHM_def Let_def wrapSHM_auditor_upd auditor_out returns_def split: sum.splits)

lemma getBufferFromPool_auditor_upd:
  "getBufferFromPool e (s\<lparr>auditor := a\<rparr>) sid n found lb =
     (fst (getBufferFromPool e s sid n found lb),
      (snd (getBufferFromPool e s sid n found lb))\<lparr>auditor := a\<rparr>)"
  by (simp add: getBufferFromPool_def requestSHM_auditor_upd split: prod.splits sum.splits)

lemma requestSHM_auditor [simp]: "auditor (snd (requestSHM e s n found)) = auditor s"
  by (simp add: requestSHM_def Let_def split: sum.splits)

text \<open>\<open>requestSHM\<close> returns an empty handle exactly on a miss that fails the budget test.\<close>

lemma requestSHM_empty_iff:
  "(\<exists>shm. fst (requestSHM e s n found) = Inr shm \<and> cb_get shm = Null)
     \<longleftrightarrow> lookup_default [] (buffers (pool s)) n = []
          \<and> \<not> dless (to_double (allocated (pool s) + n))
                 (dmul (to_double (shmSize s)) (MAX_SHM_USAGE_FRAC e))"
  by (auto simp: requestSHM_def Let_def emptyCpuBuffer_def split: sum.splits)

lemma getBufferFromPool_cases:
  "getBufferFromPool e s sid n found lb =
     (if activatedStreams s sid = Some False then (Inr lb, s)
      else case fst (requestSHM e s n found) of
             Inl x \<Rightarrow> requestSHM e s n found
           | Inr shm \<Rightarrow>
               if cb_get shm = Null then (Inr lb, snd (requestSHM e s n found))
               else requestSHM e s n found)"
  by (cases "activatedStreams s sid")
    (auto simp: getBufferFromPool_def split: prod.splits sum.splits)

text \<open>
  Claim C1, as amended. The allocation path does not read the auditor's invalid flag:
  on an invalidated segment \<open>getBufferFromPool\<close> and \<open>requestSHM\<close> return the same
  result and make the same changes as on the segment before it was invalidated. So an
  invalidated segment still serves from, and adds to, the shared CPU pool. On an
  invalidated segment as on any other, \<open>getBufferFromPool\<close> returns the local fallback
  buffer for a stream marked inactive; for any other stream it returns what
  \<open>requestSHM\<close> returns (or ends with its exception), and the local fallback buffer
  only when \<open>requestSHM\<close> returns an empty handle, which it does exactly when the
  free-list of \<open>n\<close> misses and the budget test fails.
\<close>

theorem allocation_ignores_invalid:
  "getBufferFromPool e (invalidate s) sid n found lb =
     (fst (getBufferFromPool e s sid n found lb),
      invalidate (snd (getBufferFromPool e s sid n found lb)))
   \<and> requestSHM e (invalidate s) n found =
     (fst (requestSHM e s n found), invalidate (snd (requestSHM e s n found)))
   \<and> (activatedStreams s sid = Some False \<longrightarrow>
        getBufferFromPool e (invalidate s) sid n found lb = (Inr lb, invalidate s))
   \<and> (activatedStreams s sid \<noteq> Some False \<longrightarrow>
        getBufferFromPool e (invalidate s) sid n found lb =
          (case fst (requestSHM e (invalidate s) n found) of
             Inl x \<Rightarrow> requestSHM e (invalidate s) n found
           | Inr shm \<Rightarrow>
               if cb_get shm = Null then (Inr lb, snd (requestSHM e (invalidate s) n found))
               else requestSHM e (invalidate s) n found))
   \<and> ((\<exists>shm. fst (requestSHM e (invalidate s) n found) = Inr shm \<and> cb_get shm = Null)
        \<longleftrightarrow> lookup_default [] (buffers (pool s)) n = []
             \<and> \<not> dless (to_double (allocated (pool s) + n))
                    (dmul (to_double (shmSize s)) (MAX_SHM_USAGE_FRAC e)))"
proof -
  have a: "auditor (snd (getBufferFromPool e s sid n found lb)) = auditor s"
    by (simp add: getBufferFromPool_cases split: sum.splits)
  have g: "getBufferFromPool e (invalidate s) sid n found lb =
     (fst (getBufferFromPool e s sid n found lb),
      invalidate (snd (getBufferFromPool e s sid n found lb)))"
    using a by (simp add: invalidate_def getBufferFromPool_auditor_upd)
  have r: "requestSHM e (invalidate s) n found =
     (fst (requestSHM e s n found), invalidate (snd (requestSHM e s n found)))"
    by (simp add: invalidate_def requestSHM_auditor_upd)
  have i: "activatedStreams (invalidate s) = activatedStreams s" "pool (invalidate s) = pool s"
    "shmSize (invalidate s) = shmSize s"
    by (simp_all add: invalidate_def)
  have off: "getBufferFromPool e (invalidate s) sid n found lb = (Inr lb, invalidate s)"
    if "activatedStreams s sid = Some False"
    using that by (simp add: getBufferFromPool_cases i)
  have on: "getBufferFromPool e (invalidate s) sid n found lb =
          (case fst (requestSHM e (invalidate s) n found) of
             Inl x \<Rightarrow> requestSHM e (invalidate s) n found
           | Inr shm \<Rightarrow>
               if cb_get shm = Null then (Inr lb, snd (requestSHM e (invalidate s) n found))
               else requestSHM e (invalidate s) n found)"
    if "activatedStreams s sid \<noteq> Some False"
    using that by (simp add: getBufferFromPool_cases [of e "invalidate s"] i)
  have em: "(\<exists>shm. fst (requestSHM e (invalidate s) n found) = Inr shm \<and> cb_get shm = Null)
        \<longleftrightarrow> lookup_default [] (buffers (pool s)) n = []
             \<and> \<not> dless (to_double (allocated (pool s) + n))
                    (dmul (to_double (shmSize s)) (MAX_SHM_USAGE_FRAC e))"
    using requestSHM_empty_iff [of e "invalidate s" n found] by (simp only: i)
  show ?thesis using g r off on em by blast
qed

text \<open>
  On invalidated segments: a stream marked inactive gets the fallback buffer; an
  unknown stream whose request of 512 bytes fails the budget test (512 bytes allocated
  of a budget of 1024) gets the fallback buffer; an unknown stream whose request of 16
  bytes passes it is served from the segment.
\<close>

theorem allocation_ignores_invalid_witness:
  "activatedStreams (activateStream (attached 1048576) ''A'' False) ''A'' = Some False
   \<and> getBufferFromPool posix_env (invalidate (activateStream (attached 1048576) ''A'' False))
        ''A'' 16 (Some 0) heapBuf
       = (Inr heapBuf, invalidate (activateStream (attached 1048576) ''A'' False))
   \<and> activatedStreams (snd (requestSHM posix_env (attached 1024) 512 (Some 0))) ''A'' \<noteq> Some False
   \<and> lookup_default [] (buffers (pool (snd (requestSHM posix_env (attached 1024) 512 (Some 0))))) 512 = []
   \<and> \<not> dless (to_double (allocated (pool (snd (requestSHM posix_env (attached 1024) 512 (Some 0)))) + 512))
          (dmul (to_double (shmSize (snd (requestSHM posix_env (attached 1024) 512 (Some 0)))))
             (MAX_SHM_USAGE_FRAC posix_env))
   \<and> fst (requestSHM posix_env (invalidate (snd (requestSHM posix_env (attached 1024) 512 (Some 0))))
             512 (Some 512)) = Inr emptyCpuBuffer
   \<and> fst (getBufferFromPool posix_env (invalidate (snd (requestSHM posix_env (attached 1024) 512 (Some 0))))
             ''A'' 512 (Some 512) heapBuf) = Inr heapBuf
   \<and> activatedStreams (attached 1048576) ''A'' \<noteq> Some False
   \<and> fst (requestSHM posix_env (invalidate (attached 1048576)) 16 (Some 0))
       = Inr (CpuBuffer (Shm 0) DestroyLocal)
   \<and> getBufferFromPool posix_env (invalidate (attached 1048576)) ''A'' 16 (Some 0) heapBuf
       = requestSHM posix_env (invalidate (attached 1048576)) 16 (Some 0)"
proof -
  let ?sA = "activateStream (attached 1048576) ''A'' False"
  let ?t1 = "snd (requestSHM posix_env (attached 1024) 512 (Some 0))"
  have a: "activatedStreams ?sA ''A'' = Some False" by (simp add: activateStream_def)
  have g1: "getBufferFromPool posix_env (invalidate ?sA) ''A'' 16 (Some 0) heapBuf
       = (Inr heapBuf, invalidate ?sA)"
    using allocation_ignores_invalid [where s = ?sA and sid = "''A''" and e = posix_env and n = 16
        and found = "Some 0" and lb = heapBuf] a
    by blast
  have b: "activatedStreams ?t1 ''A'' \<noteq> Some False"
    by (simp add: run_defs)
  have m: "lookup_default [] (buffers (pool ?t1)) 512 = []"
    by (simp add: run_defs)
  have v: "allocated (pool ?t1) = 512" "shmSize ?t1 = 1024"
    by (simp_all add: run_defs)
  have n: "\<not> dless (to_double (allocated (pool ?t1) + 512))
          (dmul (to_double (shmSize ?t1)) (MAX_SHM_USAGE_FRAC posix_env))"
    unfolding v frac_posix_env by (simp add: budget_fail_run)
  note t2 = allocation_ignores_invalid [where s = ?t1 and sid = "''A''" and e = posix_env and n = 512
        and found = "Some 512" and lb = heapBuf]
  from t2 m n obtain shm
    where s: "fst (requestSHM posix_env (invalidate ?t1) 512 (Some 512)) = Inr shm" "cb_get shm = Null"
    by blast
  have e: "fst (requestSHM posix_env (invalidate ?t1) 512 (Some 512)) = Inr emptyCpuBuffer"
    by (simp add: invalidate_def run_defs)
  have "getBufferFromPool posix_env (invalidate ?t1) ''A'' 512 (Some 512) heapBuf =
          (case fst (requestSHM posix_env (invalidate ?t1) 512 (Some 512)) of
             Inl x \<Rightarrow> requestSHM posix_env (invalidate ?t1) 512 (Some 512)
           | Inr shm \<Rightarrow>
               if cb_get shm = Null
               then (Inr heapBuf, snd (requestSHM posix_env (invalidate ?t1) 512 (Some 512)))
               else requestSHM posix_env (invalidate ?t1) 512 (Some 512))"
    using t2 b by blast
  then have g2: "fst (getBufferFromPool posix_env (invalidate ?t1) ''A'' 512 (Some 512) heapBuf) = Inr heapBuf"
    by (simp only: s sum.case simp_thms if_True fst_conv)
  have c: "activatedStreams (attached 1048576) ''A'' \<noteq> Some False"
    by (simp add: run_defs)
  have r3: "fst (requestSHM posix_env (invalidate (attached 1048576)) 16 (Some 0))
       = Inr (CpuBuffer (Shm 0) DestroyLocal)"
    by (simp add: invalidate_def run_defs)
  have "getBufferFromPool posix_env (invalidate (attached 1048576)) ''A'' 16 (Some 0) heapBuf =
          (case fst (requestSHM posix_env (invalidate (attached 1048576)) 16 (Some 0)) of
             Inl x \<Rightarrow> requestSHM posix_env (invalidate (attached 1048576)) 16 (Some 0)
           | Inr shm \<Rightarrow>
               if cb_get shm = Null
               then (Inr heapBuf, snd (requestSHM posix_env (invalidate (attached 1048576)) 16 (Some 0)))
               else requestSHM posix_env (invalidate (attached 1048576)) 16 (Some 0))"
    using allocation_ignores_invalid [where s = "attached 1048576" and sid = "''A''" and e = posix_env
        and n = 16 and found = "Some 0" and lb = heapBuf] c
    by blast
  then have g3: "getBufferFromPool posix_env (invalidate (attached 1048576)) ''A'' 16 (Some 0) heapBuf
       = requestSHM posix_env (invalidate (attached 1048576)) 16 (Some 0)"
    by (simp add: r3)
  show ?thesis using a g1 b m n e g2 c r3 g3 by simp
qed

text \<open>
  Claim C1 as stated fails: after \<open>invalidate()\<close>, a request of 16 bytes on an unknown
  stream is served from the segment (offset 0, deleter \<open>destroyLocal\<close>), is charged to
  \<open>allocated\<close> and constructs a block in the segment. The same happens in a process that
  attached to an invalidated segment (the constructor leaves no process record and
  sets the flag).
\<close>

theorem invalid_segment_still_serves:
  "invalid (auditor (invalidate (attached 1048576)))
   \<and> fst (getBufferFromPool posix_env (invalidate (attached 1048576)) ''A'' 16 (Some 0) heapBuf)
       = Inr (CpuBuffer (Shm 0) DestroyLocal)
   \<and> allocated (pool (snd (getBufferFromPool posix_env (invalidate (attached 1048576)) ''A'' 16 (Some 0) heapBuf))) = 16
   \<and> seg_blocks (snd (getBufferFromPool posix_env (invalidate (attached 1048576)) ''A'' 16 (Some 0) heapBuf)) = [0]
   \<and> invalid (auditor attached_invalid)
   \<and> processes (auditor attached_invalid) = []
   \<and> fst (getBufferFromPool posix_env attached_invalid ''A'' 16 (Some 0) heapBuf)
       = Inr (CpuBuffer (Shm 0) DestroyLocal)
   \<and> fst (requestSHM posix_env attached_invalid 16 (Some 0)) = Inr (CpuBuffer (Shm 0) DestroyLocal)
   \<and> allocated (pool (snd (requestSHM posix_env attached_invalid 16 (Some 0)))) = 16"
  by (simp add: invalidate_def getBufferFromPool_def attached_invalid_def run_defs)

section \<open>Stream gating\<close>

text \<open>
  Claim C6, as amended. For a stream that is absent from the activation table or marked
  active, \<open>getBufferFromPool\<close> calls \<open>requestSHM(n)\<close> and returns its buffer when that
  is non-empty, and the local fallback buffer when \<open>requestSHM\<close> returns an empty
  handle (an exception of \<open>requestSHM\<close> passes through). For a stream marked inactive
  it returns the local fallback buffer and \<open>requestSHM\<close> is not called (the state is
  unchanged); \<open>convert\<close> of that buffer is empty, its heap address not being a key of
  \<open>ptrs_\<close>. \<open>activateStream(id, active)\<close> sets the bit of \<open>id\<close>, leaves the bits of the
  other streams and changes nothing else.
\<close>

theorem getBufferFromPool_gate:
  "(activatedStreams s sid = None \<or> activatedStreams s sid = Some True \<longrightarrow>
      getBufferFromPool e s sid n found lb =
        (case fst (requestSHM e s n found) of
           Inl x \<Rightarrow> requestSHM e s n found
         | Inr shm \<Rightarrow>
             if cb_get shm = Null then (Inr lb, snd (requestSHM e s n found))
             else requestSHM e s n found))
   \<and> (activatedStreams s sid = Some False \<longrightarrow>
        getBufferFromPool e s sid n found lb = (Inr lb, s)
        \<and> (map_of (ptrs s) (cb_get lb) = None \<longrightarrow> fst (convert s lb) = EmptySP))
   \<and> activatedStreams (activateStream s sid active) sid = Some active
   \<and> (\<forall>t. t \<noteq> sid \<longrightarrow> activatedStreams (activateStream s sid active) t = activatedStreams s t)
   \<and> activateStream s sid active = s\<lparr>activatedStreams := activatedStreams (activateStream s sid active)\<rparr>"
  by (auto simp: getBufferFromPool_def activateStream_def convert_def split: prod.splits sum.splits)

text \<open>
  The scenario of stream gating: with stream A deactivated the fallback buffer is
  returned, nothing changes and \<open>convert\<close> is empty; with A activated again the buffer
  comes from the segment and \<open>convert\<close> finds its wrapper; stream B is not touched; and
  before any call of \<open>activateStream\<close> stream A is unknown and served by \<open>requestSHM\<close>.
\<close>

theorem getBufferFromPool_gate_witness:
  "activatedStreams (activateStream (attached 1048576) ''A'' False) ''A'' = Some False
   \<and> getBufferFromPool posix_env (activateStream (attached 1048576) ''A'' False) ''A'' 256 (Some 0) heapBuf
       = (Inr heapBuf, activateStream (attached 1048576) ''A'' False)
   \<and> map_of (ptrs (activateStream (attached 1048576) ''A'' False)) (cb_get heapBuf) = None
   \<and> fst (convert (activateStream (attached 1048576) ''A'' False) heapBuf) = EmptySP
   \<and> activatedStreams (activateStream (activateStream (attached 1048576) ''A'' False) ''A'' True) ''A''
       = Some True
   \<and> getBufferFromPool posix_env
        (activateStream (activateStream (attached 1048576) ''A'' False) ''A'' True) ''A'' 256 (Some 0) heapBuf
       = requestSHM posix_env
           (activateStream (activateStream (attached 1048576) ''A'' False) ''A'' True) 256 (Some 0)
   \<and> fst (requestSHM posix_env
           (activateStream (activateStream (attached 1048576) ''A'' False) ''A'' True) 256 (Some 0))
       = Inr (CpuBuffer (Shm 0) DestroyLocal)
   \<and> fst (convert
        (snd (requestSHM posix_env
           (activateStream (activateStream (attached 1048576) ''A'' False) ''A'' True) 256 (Some 0)))
        (CpuBuffer (Shm 0) DestroyLocal)) = SP 0 (Shm 0)
   \<and> ''B'' \<noteq> ''A''
   \<and> activatedStreams (activateStream (attached 1048576) ''A'' False) ''B''
       = activatedStreams (attached 1048576) ''B''
   \<and> activatedStreams (attached 1048576) ''A'' = None
   \<and> getBufferFromPool posix_env (attached 1048576) ''A'' 256 (Some 0) heapBuf
       = requestSHM posix_env (attached 1048576) 256 (Some 0)"
proof -
  let ?sA = "activateStream (attached 1048576) ''A'' False"
  let ?sB = "activateStream ?sA ''A'' True"
  have a: "activatedStreams ?sA ''A'' = Some False" "activatedStreams ?sB ''A'' = Some True"
    by (simp_all add: activateStream_def)
  have p: "map_of (ptrs ?sA) (cb_get heapBuf) = None"
    by (simp add: activateStream_def heapBuf_def run_defs)
  have r: "fst (requestSHM posix_env ?sB 256 (Some 0)) = Inr (CpuBuffer (Shm 0) DestroyLocal)"
    by (simp add: activateStream_def run_defs)
  have c: "fst (convert (snd (requestSHM posix_env ?sB 256 (Some 0))) (CpuBuffer (Shm 0) DestroyLocal))
             = SP 0 (Shm 0)"
    by (simp add: activateStream_def convert_def run_defs)
  have b: "''B'' \<noteq> ''A''" by simp
  have u: "activatedStreams (attached 1048576) ''A'' = None"
    by (simp add: run_defs)
  have r0: "fst (requestSHM posix_env (attached 1048576) 256 (Some 0)) = Inr (CpuBuffer (Shm 0) DestroyLocal)"
    by (simp add: run_defs)
  show ?thesis
    using getBufferFromPool_gate [where s = ?sA and sid = "''A''" and e = posix_env and n = 256
            and found = "Some 0" and lb = heapBuf]
          getBufferFromPool_gate [where s = ?sB and sid = "''A''" and e = posix_env and n = 256
            and found = "Some 0" and lb = heapBuf]
          getBufferFromPool_gate [where s = "attached 1048576" and sid = "''A''" and active = False
            and e = posix_env and n = 256 and found = "Some 0" and lb = heapBuf]
          a p r c b u r0
    by simp
qed

text \<open>
  Claim C6 as stated fails where \<open>requestSHM\<close> returns an empty handle: with a budget of
  1024 bytes (cap 921.6) and 512 bytes allocated, a second request of 512 bytes on an
  unknown stream makes \<open>requestSHM\<close> return an empty handle, and \<open>getBufferFromPool\<close>
  returns the local fallback buffer instead.
\<close>

theorem fallback_on_budget:
  "activatedStreams (snd (requestSHM posix_env (attached 1024) 512 (Some 0))) ''A'' = None
   \<and> fst (requestSHM posix_env (snd (requestSHM posix_env (attached 1024) 512 (Some 0))) 512 (Some 1)) = Inr emptyCpuBuffer
   \<and> fst (getBufferFromPool posix_env (snd (requestSHM posix_env (attached 1024) 512 (Some 0))) ''A'' 512 (Some 1) heapBuf) = Inr heapBuf
   \<and> fst (getBufferFromPool posix_env (snd (requestSHM posix_env (attached 1024) 512 (Some 0))) ''A'' 512 (Some 1) heapBuf)
       \<noteq> fst (requestSHM posix_env (snd (requestSHM posix_env (attached 1024) 512 (Some 0))) 512 (Some 1))"
  by (simp add: getBufferFromPool_def heapBuf_def run_defs)



section \<open>The free-list scan of the GPU pools\<close>

lemma get_set_pool [simp]: "get_pool pl (set_pool pl p s) = p"
  by (cases pl) simp_all

lemma seg_gpu_set_pool [simp]: "seg_gpu (set_pool pl p s) = seg_gpu s"
  by (cases pl) simp_all

lemma lookup_default_update [simp]:
  "lookup_default d (AList.update k v m) k = v"
  by (simp add: lookup_default_def update_conv')

lemma map_of_emplace_other:
  "k' \<noteq> k \<Longrightarrow> map_of (emplace k v m) k' = map_of m k'"
  by (auto simp: emplace_def map_add_def split: option.splits)

lemma map_of_emplace_same:
  "\<exists>y. map_of (emplace k v m) k = Some y"
  by (auto simp: emplace_def map_add_def split: option.splits)

lemma findBuffer_loop_hit:
  "\<forall>y \<in> set pre. snd (g y) \<noteq> ourPid \<Longrightarrow> snd (g x) = ourPid \<Longrightarrow>
     findBuffer_loop g ourPid (pre @ x # post) = Some (x, pre @ post)"
  by (induction pre) simp_all

lemma findBuffer_loop_miss:
  "\<forall>y \<in> set xs. snd (g y) \<noteq> ourPid \<Longrightarrow> findBuffer_loop g ourPid xs = None"
  by (induction xs) simp_all

text \<open>
  Claim C7. \<open>findBuffer(n, pool)\<close> scans the free-list \<open>buffers[n]\<close> from the front. If
  the list is \<open>pre @ x # post\<close> with no entry of our PID in \<open>pre\<close> and \<open>x\<close> carrying our
  PID, it returns \<open>x\<close> (offset and pointer) and the list becomes \<open>pre @ post\<close>. If no
  entry carries our PID it returns false and the list is as before, whatever foreign
  entries it holds. In both cases the key \<open>n\<close> exists afterwards (an empty list is
  created when it was absent), the free-lists of the other sizes are untouched and
  nothing but \<open>buffers\<close> of that pool changes.
\<close>

theorem findBuffer_first_own:
  "(\<forall>pre x post.
      lookup_default [] (buffers (get_pool pl s)) n = pre @ x # post
      \<and> (\<forall>y \<in> set pre. snd (seg_gpu s y) \<noteq> getpid e) \<and> snd (seg_gpu s x) = getpid e \<longrightarrow>
        fst (findBuffer e s n pl) = Some (x, Shm x)
        \<and> lookup_default [] (buffers (get_pool pl (snd (findBuffer e s n pl)))) n = pre @ post)
   \<and> ((\<forall>y \<in> set (lookup_default [] (buffers (get_pool pl s)) n). snd (seg_gpu s y) \<noteq> getpid e) \<longrightarrow>
        fst (findBuffer e s n pl) = None
        \<and> lookup_default [] (buffers (get_pool pl (snd (findBuffer e s n pl)))) n
            = lookup_default [] (buffers (get_pool pl s)) n)
   \<and> map_of (buffers (get_pool pl (snd (findBuffer e s n pl)))) n \<noteq> None
   \<and> (\<forall>k. k \<noteq> n \<longrightarrow>
        map_of (buffers (get_pool pl (snd (findBuffer e s n pl)))) k
          = map_of (buffers (get_pool pl s)) k)
   \<and> snd (findBuffer e s n pl)
       = set_pool pl ((get_pool pl s)\<lparr>buffers := buffers (get_pool pl (snd (findBuffer e s n pl)))\<rparr>) s"
proof -
  let ?xs = "lookup_default [] (buffers (get_pool pl s)) n"
  have hit: "fst (findBuffer e s n pl) = Some (x, Shm x)
        \<and> lookup_default [] (buffers (get_pool pl (snd (findBuffer e s n pl)))) n = pre @ post"
    if "?xs = pre @ x # post" "\<forall>y \<in> set pre. snd (seg_gpu s y) \<noteq> getpid e"
       "snd (seg_gpu s x) = getpid e" for pre x post
    using that findBuffer_loop_hit [of pre "seg_gpu s" "getpid e" x post]
    by (simp add: findBuffer_def Let_def)
  have miss: "fst (findBuffer e s n pl) = None
        \<and> lookup_default [] (buffers (get_pool pl (snd (findBuffer e s n pl)))) n = ?xs"
    if "\<forall>y \<in> set ?xs. snd (seg_gpu s y) \<noteq> getpid e"
    using that findBuffer_loop_miss [of ?xs "seg_gpu s" "getpid e"]
    by (simp add: findBuffer_def Let_def)
  have key: "map_of (buffers (get_pool pl (snd (findBuffer e s n pl)))) n \<noteq> None"
    by (simp add: findBuffer_def Let_def update_conv' map_of_emplace_same
        split: option.splits prod.splits)
  have other: "map_of (buffers (get_pool pl (snd (findBuffer e s n pl)))) k
          = map_of (buffers (get_pool pl s)) k" if "k \<noteq> n" for k
    using that by (simp add: findBuffer_def Let_def update_conv' map_of_emplace_other
        split: option.splits prod.splits)
  have frame: "snd (findBuffer e s n pl)
       = set_pool pl ((get_pool pl s)\<lparr>buffers := buffers (get_pool pl (snd (findBuffer e s n pl)))\<rparr>) s"
    by (simp add: findBuffer_def Let_def split: option.splits prod.splits)
  show ?thesis using hit miss key other frame by blast
qed


text \<open>The definitions a run on the GPU state unfolds.\<close>

lemmas gpu_defs = gpu_demo_def gpu_record_def failed_dup_def findBuffer_def createLocalGPU_def
  assign_handle_def destroyLocalGPU_def emptyGpuBuffer_def windows_env_def

text \<open>
  On the free-list \<open>[10, 11, 12]\<close> (10 foreign, 11 and 12 ours) the scan returns 11 and
  leaves \<open>[10, 12]\<close>; on the free-list \<open>[13]\<close> (foreign) it returns false and leaves
  \<open>[13]\<close>.
\<close>

theorem findBuffer_first_own_witness:
  "lookup_default [] (buffers (get_pool PoolGPU gpu_demo)) 4096 = [10] @ 11 # [12]
   \<and> snd (seg_gpu gpu_demo 10) \<noteq> getpid posix_env
   \<and> snd (seg_gpu gpu_demo 11) = getpid posix_env
   \<and> fst (findBuffer posix_env gpu_demo 4096 PoolGPU) = Some (11, Shm 11)
   \<and> lookup_default [] (buffers (get_pool PoolGPU (snd (findBuffer posix_env gpu_demo 4096 PoolGPU)))) 4096
       = [10, 12]
   \<and> lookup_default [] (buffers (get_pool PoolGPU gpu_demo)) 8192 = [13]
   \<and> snd (seg_gpu gpu_demo 13) \<noteq> getpid posix_env
   \<and> fst (findBuffer posix_env gpu_demo 8192 PoolGPU) = None
   \<and> lookup_default [] (buffers (get_pool PoolGPU (snd (findBuffer posix_env gpu_demo 8192 PoolGPU)))) 8192
       = [13]
   \<and> map_of (buffers (get_pool PoolGPU (snd (findBuffer posix_env gpu_demo 4096 PoolGPU)))) 8192
       = Some [13]"
proof -
  have l: "lookup_default [] (buffers (get_pool PoolGPU gpu_demo)) 4096 = [10] @ 11 # [12]"
    by (simp add: gpu_defs lookup_default_def)
  have l2: "lookup_default [] (buffers (get_pool PoolGPU gpu_demo)) 8192 = [13]"
    by (simp add: gpu_defs lookup_default_def)
  have f: "\<forall>y \<in> set [10]. snd (seg_gpu gpu_demo y) \<noteq> getpid posix_env"
    by (simp add: gpu_defs posix_env_def)
  have f2: "\<forall>y \<in> set (lookup_default [] (buffers (get_pool PoolGPU gpu_demo)) 8192).
         snd (seg_gpu gpu_demo y) \<noteq> getpid posix_env"
    by (simp add: gpu_defs posix_env_def lookup_default_def)
  have o: "snd (seg_gpu gpu_demo 11) = getpid posix_env"
    by (simp add: gpu_defs posix_env_def)
  have k: "map_of (buffers (get_pool PoolGPU gpu_demo)) 8192 = Some [13]"
    by (simp add: gpu_defs)
  note t1 = findBuffer_first_own [where e = posix_env and s = gpu_demo and n = 4096 and pl = PoolGPU]
  note t2 = findBuffer_first_own [where e = posix_env and s = gpu_demo and n = 8192 and pl = PoolGPU]
  have h: "fst (findBuffer posix_env gpu_demo 4096 PoolGPU) = Some (11, Shm 11)
     \<and> lookup_default [] (buffers (get_pool PoolGPU (snd (findBuffer posix_env gpu_demo 4096 PoolGPU)))) 4096
       = [10] @ [12]"
    using t1 [THEN conjunct1, rule_format, of "[10]" 11 "[12]"] l f o by blast
  have m: "fst (findBuffer posix_env gpu_demo 8192 PoolGPU) = None
     \<and> lookup_default [] (buffers (get_pool PoolGPU (snd (findBuffer posix_env gpu_demo 8192 PoolGPU)))) 8192
       = [13]"
    using t2 [THEN conjunct2, THEN conjunct1] f2 l2 by simp
  have "(8192 :: 64 word) \<noteq> 4096" by simp
  then have k': "map_of (buffers (get_pool PoolGPU (snd (findBuffer posix_env gpu_demo 4096 PoolGPU)))) 8192
       = Some [13]"
    using t1 k by simp
  show ?thesis using l l2 f o h f2 m k' by simp
qed

section \<open>Duplicating a GPU handle\<close>

text \<open>
  Claim C8 (the code departs from it on the POSIX path). The wrapper of the record at
  offset 20 (handle 5 of process 200) arrives in a process that has not seen handle 5,
  and the duplication fails. On POSIX \<open>open\<close> returns -1, which is not tested: the
  result converted to \<open>uint64_t\<close> is taken as the new handle, \<open>createLocal\<close> returns a
  non-empty \<open>GpuBuffer\<close> with handle \<open>0xFFFFFFFFFFFFFFFF\<close>, and the wrapper is recorded
  in \<open>handlesGPU_\<close> (and the handle in \<open>gpuHandleProcMap_\<close>). On Windows the failed
  \<open>DuplicateHandle\<close> is tested: the result is empty and nothing is recorded.
\<close>

theorem createLocalGPU_open_failure:
  "fst (createLocalGPU posix_env gpu_demo (SP 0 (Shm 20)) failed_dup heapBuf)
     = GpuBuffer (GLocal \<lparr>gb_handle = 0xFFFFFFFFFFFFFFFF, gb_size = 4096, gb_memoryTypeIndex = 0\<rparr>)
         GDestroyLocalDelete heapBuf
   \<and> map_of (handlesGPU (snd (createLocalGPU posix_env gpu_demo (SP 0 (Shm 20)) failed_dup heapBuf)))
        0xFFFFFFFFFFFFFFFF = Some (SP 0 (Shm 20))
   \<and> map_of (gpuHandleProcMap (snd (createLocalGPU posix_env gpu_demo (SP 0 (Shm 20)) failed_dup heapBuf)))
        5 = Some 0xFFFFFFFFFFFFFFFF
   \<and> createLocalGPU windows_env gpu_demo (SP 0 (Shm 20)) failed_dup heapBuf
     = (emptyGpuBuffer, gpu_demo)"
  by (simp add: gpu_defs run_defs)


section \<open>The local GPU caches\<close>

lemma set_pool_gpu_fields [simp]:
  "handlesGPU (set_pool pl p s) = handlesGPU s"
  "gpuHandleProcMap (set_pool pl p s) = gpuHandleProcMap s"
  "gpuMappedBuffers (set_pool pl p s) = gpuMappedBuffers s"
  "vk_freed (set_pool pl p s) = vk_freed s"
  "vk_active (set_pool pl p s) = vk_active s"
  "seg_ctrl (set_pool pl p s) = seg_ctrl s"
  "seg_next (set_pool pl p s) = seg_next s"
  "shmGPUSize (set_pool pl p s) = shmGPUSize s"
  by (cases pl; simp)+

lemma sp_release_gpu_fields [simp]:
  "handlesGPU (sp_release w s) = handlesGPU s"
  "gpuHandleProcMap (sp_release w s) = gpuHandleProcMap s"
  "gpuMappedBuffers (sp_release w s) = gpuMappedBuffers s"
  "vk_freed (sp_release w s) = vk_freed s"
  by (simp_all add: sp_release_def split: SharedPtr.splits option.splits)

lemma sp_copy_gpu_fields [simp]:
  "handlesGPU (sp_copy w s) = handlesGPU s"
  "gpuHandleProcMap (sp_copy w s) = gpuHandleProcMap s"
  "gpuMappedBuffers (sp_copy w s) = gpuMappedBuffers s"
  "vk_freed (sp_copy w s) = vk_freed s"
  by (simp_all add: sp_copy_def split: SharedPtr.splits option.splits)

lemma fold_sp_release_gpu_fields [simp]:
  "handlesGPU (fold sp_release ws s) = handlesGPU s"
  "gpuHandleProcMap (fold sp_release ws s) = gpuHandleProcMap s"
  "gpuMappedBuffers (fold sp_release ws s) = gpuMappedBuffers s"
  "vk_freed (fold sp_release ws s) = vk_freed s"
  by (induction ws arbitrary: s; simp)+

lemma cleanPool_gpu_fields [simp]:
  "handlesGPU (cleanPool e s pl c) = handlesGPU s"
  "gpuHandleProcMap (cleanPool e s pl c) = gpuHandleProcMap s"
  "gpuMappedBuffers (cleanPool e s pl c) = gpuMappedBuffers s"
  by (simp_all add: cleanPool_def Let_def)

lemma cleanPool_vk_freed:
  "\<exists>freed. vk_freed (cleanPool e s pl c) = vk_freed s @ freed"
  by (simp add: cleanPool_def Let_def)

lemma destroyLocalGPU_frame:
  "handlesGPU (destroyLocalGPU s r)
     = (case read_handle s r of None \<Rightarrow> handlesGPU s | Some h \<Rightarrow> AList.delete h (handlesGPU s))"
  "gpuMappedBuffers (destroyLocalGPU s r) = gpuMappedBuffers s"
  "gpuHandleProcMap (destroyLocalGPU s r) = gpuHandleProcMap s"
  "vk_freed (destroyLocalGPU s r) = vk_freed s"
  by (auto simp: destroyLocalGPU_def delete_notin_dom map_of_eq_None_iff
      split: option.splits intro: delete_id [symmetric])

lemma fold_sp_release_auditor [simp]:
  "auditor (fold sp_release ws s) = auditor s"
  by (induction ws arbitrary: s) simp_all

lemma detach_cpu_gpu_fields [simp]:
  "handlesGPU (detach_cpu e s) = handlesGPU s"
  "gpuHandleProcMap (detach_cpu e s) = gpuHandleProcMap s"
  "gpuMappedBuffers (detach_cpu e s) = gpuMappedBuffers s"
  "vk_freed (detach_cpu e s) = vk_freed s"
  by (simp_all add: detach_cpu_def Let_def invalidate_def)

lemma detach_gpu_caches:
  "handlesGPU (detach_gpu e s) = []"
  "gpuMappedBuffers (detach_gpu e s) = []"
  "gpuHandleProcMap (detach_gpu e s) = gpuHandleProcMap s"
  by (simp_all add: detach_gpu_def Let_def)

lemma detach_gpu_vk_freed:
  "\<exists>freed. vk_freed (detach_gpu e s) = vk_freed s @ freed @ map snd (gpuHandleProcMap s)"
proof -
  define s6 where "s6 = (fold sp_release (map snd (handlesGPU s)) (s\<lparr>handlesGPU := []\<rparr>))\<lparr>gpuMappedBuffers := []\<rparr>"
  define c where "c = (processes (auditor s6) = [])"
  define s7 where "s7 = cleanPool e s6 PoolGPU c"
  define s8 where "s8 = cleanPool e s7 PoolGPUDeviceLocal c"
  obtain f1 where f1: "vk_freed s7 = vk_freed s6 @ f1"
    using cleanPool_vk_freed [of e s6 PoolGPU c] by (auto simp: s7_def)
  obtain f2 where f2: "vk_freed s8 = vk_freed s7 @ f2"
    using cleanPool_vk_freed [of e s7 PoolGPUDeviceLocal c] by (auto simp: s8_def)
  have v6: "vk_freed s6 = vk_freed s" by (simp add: s6_def)
  have m8: "gpuHandleProcMap s8 = gpuHandleProcMap s" by (simp add: s8_def s7_def s6_def)
  have "detach_gpu e s = s8\<lparr>vk_freed := vk_freed s8 @ map snd (gpuHandleProcMap s8)\<rparr>"
    by (simp add: detach_gpu_def Let_def s8_def s7_def c_def s6_def)
  then have "vk_freed (detach_gpu e s) = vk_freed s @ (f1 @ f2) @ map snd (gpuHandleProcMap s)"
    by (simp add: f1 f2 v6 m8)
  then show ?thesis by blast
qed

lemma createLocalGPU_vk_freed:
  "vk_freed (snd (createLocalGPU e s w os view)) = vk_freed s"
  by (simp add: createLocalGPU_def assign_handle_def Let_def split: addr.splits)

lemma map_le_update_absent:
  "map_of m k = None \<Longrightarrow> map_of m \<subseteq>\<^sub>m map_of (AList.update k v m)"
  by (auto simp add: update_conv' map_le_def)

lemma map_le_update_same:
  "map_of m k = Some v \<Longrightarrow> map_of m \<subseteq>\<^sub>m map_of (AList.update k v m)"
  by (auto simp add: update_conv' map_le_def)

lemma createLocalGPU_keeps:
  "map_of (gpuHandleProcMap s) \<subseteq>\<^sub>m map_of (gpuHandleProcMap (snd (createLocalGPU e s w os view)))"
  "map_of (gpuMappedBuffers s) \<subseteq>\<^sub>m map_of (gpuMappedBuffers (snd (createLocalGPU e s w os view)))"
  by (auto simp: createLocalGPU_def assign_handle_def Let_def map_le_update_absent map_le_update_same
      split: addr.splits option.splits)

lemma findBuffer_gpu_fields [simp]:
  "vk_freed (snd (findBuffer e s n pl)) = vk_freed s"
  "gpuHandleProcMap (snd (findBuffer e s n pl)) = gpuHandleProcMap s"
  "gpuMappedBuffers (snd (findBuffer e s n pl)) = gpuMappedBuffers s"
  by (simp_all add: findBuffer_def Let_def split: option.splits prod.splits)

lemma dom_emplace: "dom (map_of m) \<subseteq> dom (map_of (emplace k v m))"
  by (auto simp: emplace_def)

lemma wrapGPU_gpu_fields:
  "vk_freed (snd (wrapGPU s pl off n dl)) = vk_freed s"
  "gpuHandleProcMap (snd (wrapGPU s pl off n dl)) = gpuHandleProcMap s"
  "dom (map_of (gpuMappedBuffers s)) \<subseteq> dom (map_of (gpuMappedBuffers (snd (wrapGPU s pl off n dl))))"
  by (simp_all add: wrapGPU_def sp_construct_def Let_def dom_emplace split: prod.splits)

lemma getGpuBufferFromPool_keeps:
  "vk_freed (snd (getGpuBufferFromPool e s n dl va view fresh)) = vk_freed s"
  "gpuHandleProcMap (snd (getGpuBufferFromPool e s n dl va view fresh)) = gpuHandleProcMap s"
  "dom (map_of (gpuMappedBuffers s))
     \<subseteq> dom (map_of (gpuMappedBuffers (snd (getGpuBufferFromPool e s n dl va view fresh))))"
proof -
  obtain r s1 where f: "findBuffer e s n (if dl then PoolGPUDeviceLocal else PoolGPU) = (r, s1)"
    by (cases "findBuffer e s n (if dl then PoolGPUDeviceLocal else PoolGPU)")
  have s1: "vk_freed s1 = vk_freed s" "gpuHandleProcMap s1 = gpuHandleProcMap s"
    "gpuMappedBuffers s1 = gpuMappedBuffers s"
    using findBuffer_gpu_fields [of e s n "if dl then PoolGPUDeviceLocal else PoolGPU"] f by simp_all
  show "vk_freed (snd (getGpuBufferFromPool e s n dl va view fresh)) = vk_freed s"
    using f s1 by (simp add: getGpuBufferFromPool_def Let_def wrapGPU_gpu_fields split: option.splits prod.splits)
  show "gpuHandleProcMap (snd (getGpuBufferFromPool e s n dl va view fresh)) = gpuHandleProcMap s"
    using f s1 by (simp add: getGpuBufferFromPool_def Let_def wrapGPU_gpu_fields split: option.splits prod.splits)
  have up: "dom (map_of (gpuMappedBuffers s)) \<subseteq> dom (map_of (AList.update k v (gpuMappedBuffers s)))" for k v
    by (auto simp: update_conv')
  show "dom (map_of (gpuMappedBuffers s))
     \<subseteq> dom (map_of (gpuMappedBuffers (snd (getGpuBufferFromPool e s n dl va view fresh))))"
    using f s1 up
    by (auto simp: getGpuBufferFromPool_def Let_def update_conv' split: option.splits prod.splits
        intro!: order_trans [OF _ wrapGPU_gpu_fields(3)])
qed

text \<open>
  Claim C9. Destroying a local \<open>GpuBuffer\<close> handle (\<open>destroyLocal(GpuBufferData*)\<close>, run
  by the deleter) removes only the \<open>handlesGPU_\<close> entry of its handle:
  \<open>gpuMappedBuffers_\<close> and \<open>gpuHandleProcMap_\<close> are left as they are and nothing is
  freed through the graphics utility. Neither \<open>createLocal\<close> nor
  \<open>getGpuBufferFromPool\<close> frees a handle or removes a key of the two maps. The
  destructor is where they are released: it leaves \<open>handlesGPU_\<close> and
  \<open>gpuMappedBuffers_\<close> empty, and the handles freed through the graphics utility end
  with every duplicated handle of \<open>gpuHandleProcMap_\<close>.
\<close>

theorem gpu_caches_released_at_detach:
  "handlesGPU (destroyLocalGPU s r)
     = (case read_handle s r of None \<Rightarrow> handlesGPU s | Some h \<Rightarrow> AList.delete h (handlesGPU s))
   \<and> gpuMappedBuffers (destroyLocalGPU s r) = gpuMappedBuffers s
   \<and> gpuHandleProcMap (destroyLocalGPU s r) = gpuHandleProcMap s
   \<and> vk_freed (destroyLocalGPU s r) = vk_freed s
   \<and> gpuMappedBuffers (dropGpuBuffer s b) = gpuMappedBuffers s
   \<and> gpuHandleProcMap (dropGpuBuffer s b) = gpuHandleProcMap s
   \<and> vk_freed (dropGpuBuffer s b) = vk_freed s
   \<and> vk_freed (snd (createLocalGPU e s w os view)) = vk_freed s
   \<and> map_of (gpuHandleProcMap s) \<subseteq>\<^sub>m map_of (gpuHandleProcMap (snd (createLocalGPU e s w os view)))
   \<and> map_of (gpuMappedBuffers s) \<subseteq>\<^sub>m map_of (gpuMappedBuffers (snd (createLocalGPU e s w os view)))
   \<and> vk_freed (snd (getGpuBufferFromPool e s n dl va view fresh)) = vk_freed s
   \<and> gpuHandleProcMap (snd (getGpuBufferFromPool e s n dl va view fresh)) = gpuHandleProcMap s
   \<and> dom (map_of (gpuMappedBuffers s))
        \<subseteq> dom (map_of (gpuMappedBuffers (snd (getGpuBufferFromPool e s n dl va view fresh))))
   \<and> handlesGPU (MemoryPoolIPCHybrid_dtor e s) = []
   \<and> gpuMappedBuffers (MemoryPoolIPCHybrid_dtor e s) = []
   \<and> gpuHandleProcMap (MemoryPoolIPCHybrid_dtor e s) = gpuHandleProcMap s
   \<and> (\<exists>freed. vk_freed (MemoryPoolIPCHybrid_dtor e s)
          = vk_freed s @ freed @ map snd (gpuHandleProcMap s))"
proof -
  have d: "gpuMappedBuffers (dropGpuBuffer s b) = gpuMappedBuffers s"
      "gpuHandleProcMap (dropGpuBuffer s b) = gpuHandleProcMap s"
      "vk_freed (dropGpuBuffer s b) = vk_freed s"
    by (simp_all add: dropGpuBuffer_def destroyLocalGPU_frame split: gpu_deleter.splits)
  have v: "\<exists>freed. vk_freed (MemoryPoolIPCHybrid_dtor e s)
          = vk_freed s @ freed @ map snd (gpuHandleProcMap s)"
    using detach_gpu_vk_freed [of e "detach_cpu e s"] by (simp add: MemoryPoolIPCHybrid_dtor_def)
  show ?thesis
    using d v
    by (simp add: MemoryPoolIPCHybrid_dtor_def detach_gpu_caches destroyLocalGPU_frame
        createLocalGPU_vk_freed createLocalGPU_keeps getGpuBufferFromPool_keeps)
qed

text \<open>
  In the GPU state: dropping the local handle of duplicated handle 70 leaves the
  mapping and the duplicate in place and frees nothing; the destructor clears the
  mappings and frees our free-list entries 11 and 12 and then the duplicate 70.
\<close>

theorem gpu_caches_released_at_detach_example:
  "gpuMappedBuffers (destroyLocalGPU gpu_demo (GLocal \<lparr>gb_handle = 70, gb_size = 4096, gb_memoryTypeIndex = 0\<rparr>))
     = gpuMappedBuffers gpu_demo
   \<and> gpuHandleProcMap (destroyLocalGPU gpu_demo (GLocal \<lparr>gb_handle = 70, gb_size = 4096, gb_memoryTypeIndex = 0\<rparr>))
     = [(7, 70)]
   \<and> vk_freed (destroyLocalGPU gpu_demo (GLocal \<lparr>gb_handle = 70, gb_size = 4096, gb_memoryTypeIndex = 0\<rparr>)) = []
   \<and> gpuMappedBuffers (MemoryPoolIPCHybrid_dtor posix_env gpu_demo) = []
   \<and> vk_freed (MemoryPoolIPCHybrid_dtor posix_env gpu_demo) = [11, 12, 70]"
  by (simp add: gpu_defs run_defs MemoryPoolIPCHybrid_dtor_def detach_cpu_def detach_gpu_def
      cleanPool_def invalidate_def subtract_sizes_def destroy_ptr_def)



section \<open>Recycling through the free-list\<close>

lemma map_of_emplace_absent:
  "map_of m k = None \<Longrightarrow> map_of (emplace k v m) k = Some v"
  by (simp add: emplace_def map_add_def)

lemma map_of_emplace_key:
  "map_of (emplace k v m) k' = (if k' = k \<and> map_of m k = None then Some v else map_of m k')"
  by (auto simp: emplace_def map_add_def split: option.splits)

lemma emplace_present:
  "map_of m k = Some v' \<Longrightarrow> emplace k v m = m"
  by (simp add: emplace_def)

text \<open>What \<open>wrapSHM\<close> leaves behind when the cache had no entry at the address.\<close>

lemma wrapSHM_fresh_key:
  assumes "map_of (ptrs s) p = None"
  shows "map_of (ptrs (snd (wrapSHM s p off n))) p = Some (SP (seg_next s) p)"
    and "seg_ctrl (snd (wrapSHM s p off n)) (seg_next s)
           = Some \<lparr>use_count = 1, c_ptr = p, rc_pool = PoolCPU, rc_offset = off, rc_size = n\<rparr>"
    and "pool (snd (wrapSHM s p off n)) = pool s"
    and "ptrs (snd (wrapSHM s p off n)) = ptrs s @ [(p, SP (seg_next s) p)]"
  using assms
  by (simp_all add: wrapSHM_def sp_construct_def sp_copy_def sp_release_def emplace_def map_add_def)

lemma wrapSHM_ptrs_key:
  "\<exists>w. map_of (ptrs (snd (wrapSHM s p off n))) p = Some w"
  by (cases "map_of (ptrs s) p")
    (simp_all add: wrapSHM_def sp_construct_def sp_copy_def sp_release_def emplace_def map_add_def)

text \<open>A successful request is \<open>wrapSHM\<close> on a state with the same cache.\<close>

lemma construct_bytes_Inr:
  "construct_bytes n found = Inr off \<Longrightarrow> found = Some off"
  by (auto simp: construct_bytes_def split: option.splits if_splits)

lemma requestSHM_success:
  assumes "fst (requestSHM e s n found) = Inr b" and "cb_get b \<noteq> Null"
  obtains s' off where "requestSHM e s n found = returns (wrapSHM s' (Shm off) off n)"
    and "ptrs s' = ptrs s" and "seg_next s' = seg_next s"
    and "map_of (buffers (pool s')) n \<noteq> None"
proof (cases "lookup_default [] (emplace n [] (buffers (pool s))) n = []")
  case True
  with assms obtain fresh
    where b: "dless (to_double (allocated (pool s) + n))
                (dmul (to_double (shmSize s)) (MAX_SHM_USAGE_FRAC e))"
      and c: "construct_bytes n found = Inr fresh"
    by (auto simp: requestSHM_def Let_def emptyCpuBuffer_def split: if_splits sum.splits)
  show ?thesis
    by (rule that [of "s\<lparr>pool := (pool s)\<lparr>buffers := emplace n [] (buffers (pool s))\<rparr>\<rparr>
                  \<lparr>seg_blocks := fresh # seg_blocks s,
                   pool := (pool s)\<lparr>buffers := emplace n [] (buffers (pool s)),
                     allocated := allocated (pool s) + n,
                     sizes := emplace fresh n (sizes (pool s))\<rparr>\<rparr>" fresh])
      (use True b c in \<open>auto simp: requestSHM_def Let_def map_of_emplace_key\<close>)
next
  case False
  show ?thesis
    by (rule that [of "s\<lparr>pool := (pool s)\<lparr>buffers :=
           AList.update n (butlast (lookup_default [] (emplace n [] (buffers (pool s))) n))
             (emplace n [] (buffers (pool s)))\<rparr>\<rparr>"
           "last (lookup_default [] (emplace n [] (buffers (pool s))) n)"])
      (use False in \<open>auto simp: requestSHM_def Let_def update_conv'\<close>)
qed

lemma reclaim_cpu_pool:
  "rc_pool c = PoolCPU \<Longrightarrow>
     pool (reclaim c s)
       = (pool s)\<lparr>buffers := AList.update (rc_size c)
            (lookup_default [] (buffers (pool s)) (rc_size c) @ [rc_offset c]) (buffers (pool s))\<rparr>"
  "rc_pool c = PoolCPU \<Longrightarrow> poolGPU (reclaim c s) = poolGPU s"
  "rc_pool c = PoolCPU \<Longrightarrow> poolGPUDeviceLocal (reclaim c s) = poolGPUDeviceLocal s"
  by (simp_all add: reclaim_def Let_def)

lemma lookup_default_update_other:
  "k' \<noteq> k \<Longrightarrow> lookup_default d (AList.update k v m) k' = lookup_default d m k'"
  by (simp add: lookup_default_def update_conv')

lemma destroyLocal_frame [simp]:
  "shmSize (destroyLocal s a) = shmSize s"
  "allocated (pool (destroyLocal s a)) = allocated (pool s)"
  "sizes (pool (destroyLocal s a)) = sizes (pool s)"
  "seg_blocks (destroyLocal s a) = seg_blocks s"
  by (simp_all add: destroyLocal_def split: option.splits)

lemma dropCpuBuffer_frame [simp]:
  "shmSize (dropCpuBuffer s b) = shmSize s"
  "allocated (pool (dropCpuBuffer s b)) = allocated (pool s)"
  "sizes (pool (dropCpuBuffer s b)) = sizes (pool s)"
  "seg_blocks (dropCpuBuffer s b) = seg_blocks s"
  by (simp_all add: dropCpuBuffer_def split: deleter.splits)

text \<open>What \<open>destroyLocal\<close> does to the pools when the entry holds the last reference.\<close>

lemma destroyLocal_last:
  assumes "map_of (ptrs s) a = Some (SP i p)"
    and "seg_ctrl s i = Some c"
    and "use_count c = 1"
    and "rc_pool c = PoolCPU"
  shows "pool (destroyLocal s a)
           = (pool s)\<lparr>buffers := AList.update (rc_size c)
                (lookup_default [] (buffers (pool s)) (rc_size c) @ [rc_offset c]) (buffers (pool s))\<rparr>"
    and "poolGPU (destroyLocal s a) = poolGPU s"
    and "poolGPUDeviceLocal (destroyLocal s a) = poolGPUDeviceLocal s"
proof -
  have d: "destroyLocal s a
             = reclaim c (s\<lparr>ptrs := AList.delete a (ptrs s), seg_ctrl := (seg_ctrl s)(i := None)\<rparr>)"
    using assms by (simp add: destroyLocal_def sp_release_def)
  show "pool (destroyLocal s a)
           = (pool s)\<lparr>buffers := AList.update (rc_size c)
                (lookup_default [] (buffers (pool s)) (rc_size c) @ [rc_offset c]) (buffers (pool s))\<rparr>"
    and "poolGPU (destroyLocal s a) = poolGPU s"
    and "poolGPUDeviceLocal (destroyLocal s a) = poolGPUDeviceLocal s"
    using assms(4) by (simp_all add: d reclaim_cpu_pool)
qed

lemma destroyLocal_not_last:
  assumes "map_of (ptrs s) a = Some (SP i p)"
    and "seg_ctrl s i = Some c"
    and "1 < use_count c"
  shows "pool (destroyLocal s a) = pool s"
  using assms by (simp add: destroyLocal_def sp_release_def)

text \<open>
  Claim C5. No drop of a local CPU buffer changes \<open>allocated\<close>, \<open>sizes\<close> or the objects
  of the segment. The drop of the last reference to a pooled CPU buffer (the cache
  entry at its address holds a wrapper whose use count is 1, with a reclaimer of the
  CPU pool) changes, of the shared pools, only the free-list: the offset is pushed onto
  the tail of \<open>buffers[n]\<close>, the free-lists of the other sizes are as before and the two
  GPU pools are unchanged. A drop that is not the last reference leaves the CPU pool as
  it is.
\<close>

theorem drop_last_reference:
  "allocated (pool (destroyLocal s a)) = allocated (pool s)
   \<and> sizes (pool (destroyLocal s a)) = sizes (pool s)
   \<and> seg_blocks (destroyLocal s a) = seg_blocks s
   \<and> allocated (pool (dropCpuBuffer s b)) = allocated (pool s)
   \<and> sizes (pool (dropCpuBuffer s b)) = sizes (pool s)
   \<and> seg_blocks (dropCpuBuffer s b) = seg_blocks s
   \<and> (map_of (ptrs s) a = Some (SP i p) \<and> seg_ctrl s i = Some c \<and> use_count c = 1
        \<and> rc_pool c = PoolCPU \<longrightarrow>
          pool (destroyLocal s a)
            = (pool s)\<lparr>buffers := AList.update (rc_size c)
                 (lookup_default [] (buffers (pool s)) (rc_size c) @ [rc_offset c]) (buffers (pool s))\<rparr>
        \<and> lookup_default [] (buffers (pool (destroyLocal s a))) (rc_size c)
            = lookup_default [] (buffers (pool s)) (rc_size c) @ [rc_offset c]
        \<and> (\<forall>k. k \<noteq> rc_size c \<longrightarrow>
              lookup_default [] (buffers (pool (destroyLocal s a))) k
                = lookup_default [] (buffers (pool s)) k)
        \<and> poolGPU (destroyLocal s a) = poolGPU s
        \<and> poolGPUDeviceLocal (destroyLocal s a) = poolGPUDeviceLocal s)
   \<and> (map_of (ptrs s) a = Some (SP i p) \<and> seg_ctrl s i = Some c \<and> 1 < use_count c \<longrightarrow>
          pool (destroyLocal s a) = pool s)"
proof -
  have last: "pool (destroyLocal s a)
            = (pool s)\<lparr>buffers := AList.update (rc_size c)
                 (lookup_default [] (buffers (pool s)) (rc_size c) @ [rc_offset c]) (buffers (pool s))\<rparr>
        \<and> lookup_default [] (buffers (pool (destroyLocal s a))) (rc_size c)
            = lookup_default [] (buffers (pool s)) (rc_size c) @ [rc_offset c]
        \<and> (\<forall>k. k \<noteq> rc_size c \<longrightarrow>
              lookup_default [] (buffers (pool (destroyLocal s a))) k
                = lookup_default [] (buffers (pool s)) k)
        \<and> poolGPU (destroyLocal s a) = poolGPU s
        \<and> poolGPUDeviceLocal (destroyLocal s a) = poolGPUDeviceLocal s"
    if "map_of (ptrs s) a = Some (SP i p)" "seg_ctrl s i = Some c" "use_count c = 1"
       "rc_pool c = PoolCPU"
    using destroyLocal_last [OF that] by (simp add: lookup_default_update_other)
  have more: "pool (destroyLocal s a) = pool s"
    if "map_of (ptrs s) a = Some (SP i p)" "seg_ctrl s i = Some c" "1 < use_count c"
    using that by (rule destroyLocal_not_last)
  show ?thesis using last more by (simp add: lookup_default_update_other)
qed

lemma requestSHM_shmSize [simp]:
  "shmSize (snd (requestSHM e s n found)) = shmSize s"
  by (simp add: requestSHM_def Let_def split: sum.splits)

text \<open>Dropping the buffer of a successful request whose address had no cache entry.\<close>

lemma drop_after_request:
  assumes r: "fst (requestSHM e s n found) = Inr b"
    and ok: "cb_get b = Shm off"
    and nostale: "map_of (ptrs s) (Shm off) = None"
  shows "pool (dropCpuBuffer (snd (requestSHM e s n found)) b)
           = (pool (snd (requestSHM e s n found)))\<lparr>buffers := AList.update n
                (lookup_default [] (buffers (pool (snd (requestSHM e s n found)))) n @ [off])
                (buffers (pool (snd (requestSHM e s n found))))\<rparr>"
    and "seg_blocks (dropCpuBuffer (snd (requestSHM e s n found)) b)
           = seg_blocks (snd (requestSHM e s n found))"
    and "shmSize (dropCpuBuffer (snd (requestSHM e s n found)) b) = shmSize s"
    and "map_of (ptrs (dropCpuBuffer (snd (requestSHM e s n found)) b)) (Shm off) = None"
    and "b = CpuBuffer (Shm off) DestroyLocal"
proof -
  from ok have "cb_get b \<noteq> Null" by simp
  with r obtain s' off' where w: "requestSHM e s n found = returns (wrapSHM s' (Shm off') off' n)"
    and p: "ptrs s' = ptrs s"
    by (rule requestSHM_success)
  from r w have b: "b = CpuBuffer (Shm off') DestroyLocal" by simp
  with ok have o: "off' = off" by simp
  show b': "b = CpuBuffer (Shm off) DestroyLocal" using b o by simp
  let ?s1 = "snd (wrapSHM s' (Shm off) off n)"
  have s1: "snd (requestSHM e s n found) = ?s1" by (simp add: w o)
  have ns: "map_of (ptrs s') (Shm off) = None" using nostale p by simp
  note k = wrapSHM_fresh_key [OF ns, of off n]
  have e1: "map_of (ptrs ?s1) (Shm off) = Some (SP (seg_next s') (Shm off))" by (rule k(1))
  have c1: "seg_ctrl ?s1 (seg_next s')
      = Some \<lparr>use_count = 1, c_ptr = Shm off, rc_pool = PoolCPU, rc_offset = off, rc_size = n\<rparr>"
    by (rule k(2))
  have d: "dropCpuBuffer ?s1 (CpuBuffer (Shm off) DestroyLocal) = destroyLocal ?s1 (Shm off)"
    by (simp add: dropCpuBuffer_def)
  have t: "pool (destroyLocal ?s1 (Shm off))
             = (pool ?s1)\<lparr>buffers := AList.update n
                  (lookup_default [] (buffers (pool ?s1)) n @ [off]) (buffers (pool ?s1))\<rparr>"
       "seg_blocks (destroyLocal ?s1 (Shm off)) = seg_blocks ?s1"
    using destroyLocal_last [OF e1 c1] by simp_all
  show "pool (dropCpuBuffer (snd (requestSHM e s n found)) b)
           = (pool (snd (requestSHM e s n found)))\<lparr>buffers := AList.update n
                (lookup_default [] (buffers (pool (snd (requestSHM e s n found)))) n @ [off])
                (buffers (pool (snd (requestSHM e s n found))))\<rparr>"
    using t by (simp add: s1 b' d)
  show "seg_blocks (dropCpuBuffer (snd (requestSHM e s n found)) b)
           = seg_blocks (snd (requestSHM e s n found))"
    using t by (simp add: s1 b' d)
  show "shmSize (dropCpuBuffer (snd (requestSHM e s n found)) b) = shmSize s"
    by simp
  show "map_of (ptrs (dropCpuBuffer (snd (requestSHM e s n found)) b)) (Shm off) = None"
    using e1 by (simp add: s1 b' d destroyLocal_def delete_conv')
qed

lemma requestSHM_hit:
  assumes "lookup_default [] (buffers (pool s)) n = xs @ [off]"
  shows "requestSHM e s n found
           = returns (wrapSHM (s\<lparr>pool := (pool s)\<lparr>buffers := AList.update n xs (buffers (pool s))\<rparr>\<rparr>)
               (Shm off) off n)"
proof -
  have "map_of (buffers (pool s)) n = Some (xs @ [off])"
    using assms by (simp add: lookup_default_def split: option.splits)
  then have "emplace n [] (buffers (pool s)) = buffers (pool s)"
    by (rule emplace_present)
  then show ?thesis
    using assms by (simp add: requestSHM_def Let_def)
qed

text \<open>
  The recycling step, for any state in which the cache holds no entry at the address
  of the block served.
\<close>

lemma requestSHM_lifo_no_entry:
  assumes r: "fst (requestSHM e s n f1) = Inr b"
    and ok: "cb_get b \<noteq> Null"
    and nostale: "map_of (ptrs s) (cb_get b) = None"
  shows "fst (requestSHM e (dropCpuBuffer (snd (requestSHM e s n f1)) b) n f2) = Inr b
       \<and> allocated (pool (snd (requestSHM e (dropCpuBuffer (snd (requestSHM e s n f1)) b) n f2)))
           = allocated (pool (snd (requestSHM e s n f1)))
       \<and> sizes (pool (snd (requestSHM e (dropCpuBuffer (snd (requestSHM e s n f1)) b) n f2)))
           = sizes (pool (snd (requestSHM e s n f1)))
       \<and> seg_blocks (snd (requestSHM e (dropCpuBuffer (snd (requestSHM e s n f1)) b) n f2))
           = seg_blocks (snd (requestSHM e s n f1))
       \<and> lookup_default [] (buffers (pool (snd (requestSHM e
               (dropCpuBuffer (snd (requestSHM e s n f1)) b) n f2)))) n
           = lookup_default [] (buffers (pool (snd (requestSHM e s n f1)))) n"
proof -
  let ?s1 = "snd (requestSHM e s n f1)"
  let ?s2 = "dropCpuBuffer ?s1 b"
  let ?L = "lookup_default [] (buffers (pool ?s1)) n"
  obtain s' off where w: "requestSHM e s n f1 = returns (wrapSHM s' (Shm off) off n)"
    using r ok by (rule requestSHM_success)
  with r have b1: "b = CpuBuffer (Shm off) DestroyLocal" by simp
  then have a: "cb_get b = Shm off" by simp
  have ns: "map_of (ptrs s) (Shm off) = None" using nostale a by simp
  note d = drop_after_request [OF r a ns]
  have l2: "lookup_default [] (buffers (pool ?s2)) n = ?L @ [off]"
    by (simp add: d(1))
  let ?s2' = "?s2\<lparr>pool := (pool ?s2)\<lparr>buffers := AList.update n ?L (buffers (pool ?s2))\<rparr>\<rparr>"
  have r2: "requestSHM e ?s2 n f2 = returns (wrapSHM ?s2' (Shm off) off n)"
    by (rule requestSHM_hit [OF l2])
  have ns2: "map_of (ptrs ?s2') (Shm off) = None" using d(4) by simp
  have p3: "pool (snd (requestSHM e ?s2 n f2)) = pool ?s2'"
    using wrapSHM_fresh_key(3) [OF ns2] by (simp add: r2)
  have "fst (requestSHM e ?s2 n f2) = Inr b" unfolding r2 by (simp add: b1)
  moreover have "allocated (pool (snd (requestSHM e ?s2 n f2))) = allocated (pool ?s1)"
    by (simp add: p3)
  moreover have "sizes (pool (snd (requestSHM e ?s2 n f2))) = sizes (pool ?s1)"
    by (simp add: p3)
  moreover have "seg_blocks (snd (requestSHM e ?s2 n f2)) = seg_blocks ?s1"
    by (simp add: r2)
  moreover have "lookup_default [] (buffers (pool (snd (requestSHM e ?s2 n f2)))) n = ?L"
    by (simp add: p3)
  ultimately show ?thesis by simp
qed

section \<open>Reachable states are well-formed\<close>

lemma update_split:
  "map_of bs k = Some v \<Longrightarrow>
     \<exists>pre post. bs = pre @ (k, v) # post \<and> AList.update k v' bs = pre @ (k, v') # post"
proof (induction bs)
  case Nil
  then show ?case by simp
next
  case (Cons b bs)
  show ?case
  proof (cases "fst b = k")
    case True
    with Cons.prems have "b = (k, v)" by (cases b) simp
    then show ?thesis by (intro exI [of _ "[]"] exI [of _ bs]) simp
  next
    case False
    with Cons.prems have "map_of bs k = Some v" by (cases b) (simp split: if_splits)
    from Cons.IH [OF this] obtain pre post
      where "bs = pre @ (k, v) # post" "AList.update k v' bs = pre @ (k, v') # post" by blast
    with False show ?thesis
      by (intro exI [of _ "b # pre"] exI [of _ post]) (cases b, simp)
  qed
qed

lemma flat_update_present:
  assumes "map_of bs k = Some v"
  shows "\<exists>A B. concat (map snd bs) = A @ v @ B
               \<and> concat (map snd (AList.update k v' bs)) = A @ v' @ B"
proof -
  from update_split [OF assms, of v'] obtain pre post
    where "bs = pre @ (k, v) # post" "AList.update k v' bs = pre @ (k, v') # post" by blast
  then show ?thesis
    by (intro exI [of _ "concat (map snd pre)"] exI [of _ "concat (map snd post)"]) simp
qed

lemma update_absent:
  "map_of bs k = None \<Longrightarrow> AList.update k v bs = bs @ [(k, v)]"
  by (induction bs) (auto split: if_splits)

lemma flat_emplace [simp]:
  "concat (map snd (emplace k [] bs)) = concat (map snd bs)"
  by (simp add: emplace_def)

text \<open>Pushing an offset onto the free-list of a size.\<close>

lemma flat_push:
  "\<exists>A B. concat (map snd bs) = A @ B
         \<and> concat (map snd (AList.update k (lookup_default [] bs k @ [off]) bs)) = A @ [off] @ B"
proof (cases "map_of bs k")
  case None
  then show ?thesis
    by (intro exI [of _ "concat (map snd bs)"] exI [of _ "[]"])
      (simp add: update_absent lookup_default_def)
next
  case (Some v)
  from flat_update_present [OF Some, of "v @ [off]"] obtain A B
    where "concat (map snd bs) = A @ v @ B"
      "concat (map snd (AList.update k (v @ [off]) bs)) = A @ (v @ [off]) @ B" by blast
  with Some show ?thesis
    by (intro exI [of _ "A @ v"] exI [of _ B]) (simp add: lookup_default_def)
qed

lemma free_offsets_reclaim:
  assumes "rc_pool c = PoolCPU"
  shows "set (free_offsets (reclaim c s)) = insert (rc_offset c) (set (free_offsets s))"
    and "rc_offset c \<notin> set (free_offsets s) \<Longrightarrow> distinct (free_offsets s) \<Longrightarrow>
           distinct (free_offsets (reclaim c s))"
proof -
  obtain A B where f: "free_offsets s = A @ B"
    "concat (map snd (AList.update (rc_size c)
        (lookup_default [] (buffers (pool s)) (rc_size c) @ [rc_offset c]) (buffers (pool s))))
      = A @ [rc_offset c] @ B"
    using flat_push [of "buffers (pool s)" "rc_size c" "rc_offset c"]
    by (auto simp: free_offsets_def)
  have r: "free_offsets (reclaim c s) = A @ [rc_offset c] @ B"
    using assms f(2) by (simp add: free_offsets_def reclaim_cpu_pool)
  show "set (free_offsets (reclaim c s)) = insert (rc_offset c) (set (free_offsets s))"
    by (simp add: r f(1))
  show "distinct (free_offsets (reclaim c s))"
    if "rc_offset c \<notin> set (free_offsets s)" "distinct (free_offsets s)"
    using that by (auto simp: r f(1))
qed

lemma cache_invD:
  assumes "cache_inv s"
  shows "distinct (free_offsets s)"
    and "set (free_offsets s) \<subseteq> set (seg_blocks s)"
    and "\<And>i c. seg_ctrl s i = Some c \<Longrightarrow>
          i < seg_next s \<and> rc_pool c = PoolCPU \<and> c_ptr c = Shm (rc_offset c) \<and> 1 \<le> use_count c
        \<and> rc_offset c \<in> set (seg_blocks s) \<and> rc_offset c \<notin> set (free_offsets s)"
    and "\<And>i j c d. seg_ctrl s i = Some c \<Longrightarrow> seg_ctrl s j = Some d \<Longrightarrow>
          rc_offset c = rc_offset d \<Longrightarrow> i = j"
    and "\<And>a w. map_of (ptrs s) a = Some w \<Longrightarrow> \<exists>i c. w = SP i a \<and> seg_ctrl s i = Some c \<and> c_ptr c = a"
  using assms unfolding cache_inv_def by blast+

lemma free_offsets_upd [simp]:
  "free_offsets (s\<lparr>seg_ctrl := x\<rparr>) = free_offsets s"
  "free_offsets (s\<lparr>ptrs := y\<rparr>) = free_offsets s"
  "free_offsets (s\<lparr>seg_next := z\<rparr>) = free_offsets s"
  "free_offsets (s\<lparr>seg_blocks := u\<rparr>) = free_offsets s"
  by (simp_all add: free_offsets_def)

text \<open>Changing the use count of a live control block, keeping it positive.\<close>

lemma cache_inv_count:
  assumes inv: "cache_inv s" and c: "seg_ctrl s i = Some c" and k: "1 \<le> k"
  shows "cache_inv (s\<lparr>seg_ctrl := (seg_ctrl s)(i \<mapsto> c\<lparr>use_count := k\<rparr>)\<rparr>)"
proof -
  note d = cache_invD [OF inv]
  show ?thesis
    unfolding cache_inv_def
  proof (intro conjI allI impI)
    show "distinct (free_offsets (s\<lparr>seg_ctrl := (seg_ctrl s)(i \<mapsto> c\<lparr>use_count := k\<rparr>)\<rparr>))"
      using d(1) by simp
    show "set (free_offsets (s\<lparr>seg_ctrl := (seg_ctrl s)(i \<mapsto> c\<lparr>use_count := k\<rparr>)\<rparr>))
            \<subseteq> set (seg_blocks (s\<lparr>seg_ctrl := (seg_ctrl s)(i \<mapsto> c\<lparr>use_count := k\<rparr>)\<rparr>))"
      using d(2) by simp
  next
    fix j e
    assume "seg_ctrl (s\<lparr>seg_ctrl := (seg_ctrl s)(i \<mapsto> c\<lparr>use_count := k\<rparr>)\<rparr>) j = Some e"
    then have e: "(j = i \<and> e = c\<lparr>use_count := k\<rparr>) \<or> (j \<noteq> i \<and> seg_ctrl s j = Some e)"
      by (auto split: if_splits)
    show "j < seg_next (s\<lparr>seg_ctrl := (seg_ctrl s)(i \<mapsto> c\<lparr>use_count := k\<rparr>)\<rparr>)"
      and "rc_pool e = PoolCPU" and "c_ptr e = Shm (rc_offset e)" and "1 \<le> use_count e"
      and "rc_offset e \<in> set (seg_blocks (s\<lparr>seg_ctrl := (seg_ctrl s)(i \<mapsto> c\<lparr>use_count := k\<rparr>)\<rparr>))"
      and "rc_offset e \<notin> set (free_offsets (s\<lparr>seg_ctrl := (seg_ctrl s)(i \<mapsto> c\<lparr>use_count := k\<rparr>)\<rparr>))"
      using e d(3) [OF c] d(3) [of j e] k by auto
  next
    fix j l e f
    assume a: "seg_ctrl (s\<lparr>seg_ctrl := (seg_ctrl s)(i \<mapsto> c\<lparr>use_count := k\<rparr>)\<rparr>) j = Some e
       \<and> seg_ctrl (s\<lparr>seg_ctrl := (seg_ctrl s)(i \<mapsto> c\<lparr>use_count := k\<rparr>)\<rparr>) l = Some f
       \<and> rc_offset e = rc_offset f"
    then obtain e' f' where "seg_ctrl s j = Some e'" "rc_offset e' = rc_offset e"
        "seg_ctrl s l = Some f'" "rc_offset f' = rc_offset f"
      using c by (auto split: if_splits)
    then show "j = l" using a d(4) [of j e' l f'] by simp
  next
    fix a w
    assume "map_of (ptrs (s\<lparr>seg_ctrl := (seg_ctrl s)(i \<mapsto> c\<lparr>use_count := k\<rparr>)\<rparr>)) a = Some w"
    then have "map_of (ptrs s) a = Some w" by simp
    from d(5) [OF this] obtain j e where "w = SP j a" "seg_ctrl s j = Some e" "c_ptr e = a" by blast
    then show "\<exists>j e. w = SP j a
        \<and> seg_ctrl (s\<lparr>seg_ctrl := (seg_ctrl s)(i \<mapsto> c\<lparr>use_count := k\<rparr>)\<rparr>) j = Some e \<and> c_ptr e = a"
      using c by (cases "j = i") auto
  qed
qed

lemma cache_inv_sp_copy:
  "cache_inv s \<Longrightarrow> cache_inv (sp_copy w s)"
  by (cases w) (auto simp: sp_copy_def cache_inv_count split: option.splits)

text \<open>
  Releasing a reference: either another one remains, or no cache entry is left at the
  block's address.
\<close>

lemma cache_inv_sp_release:
  assumes inv: "cache_inv s"
    and ok: "\<And>c. seg_ctrl s i = Some c \<Longrightarrow> 1 < use_count c \<or> map_of (ptrs s) (c_ptr c) = None"
  shows "cache_inv (sp_release (SP i p) s)"
proof (cases "seg_ctrl s i")
  case None
  then show ?thesis using inv by (simp add: sp_release_def)
next
  case (Some c)
  note d = cache_invD [OF inv]
  note dc = d(3) [OF Some]
  show ?thesis
  proof (cases "use_count c \<le> 1")
    case False
    then have "sp_release (SP i p) s = s\<lparr>seg_ctrl := (seg_ctrl s)(i \<mapsto> c\<lparr>use_count := use_count c - 1\<rparr>)\<rparr>"
      using Some by (simp add: sp_release_def)
    moreover have "1 \<le> use_count c - 1" using False by simp
    ultimately show ?thesis using cache_inv_count [OF inv Some] by simp
  next
    case True
    let ?s' = "s\<lparr>seg_ctrl := (seg_ctrl s)(i := None)\<rparr>"
    have r: "sp_release (SP i p) s = reclaim c ?s'"
      using Some True by (simp add: sp_release_def)
    have none: "map_of (ptrs s) (c_ptr c) = None" using ok [OF Some] True by simp
    have pc: "rc_pool c = PoolCPU" using dc by simp
    have nf: "rc_offset c \<notin> set (free_offsets ?s')" "distinct (free_offsets ?s')"
      using dc d(1) by simp_all
    note fr = free_offsets_reclaim [OF pc, of ?s']
    show ?thesis
      unfolding r cache_inv_def
    proof (intro conjI allI impI)
      show "distinct (free_offsets (reclaim c ?s'))"
        using fr(2) [OF nf] .
      show "set (free_offsets (reclaim c ?s')) \<subseteq> set (seg_blocks (reclaim c ?s'))"
        using fr(1) d(2) dc by auto
    next
      fix j e
      assume "seg_ctrl (reclaim c ?s') j = Some e"
      then have e: "j \<noteq> i" "seg_ctrl s j = Some e" by (auto split: if_splits)
      have "rc_offset e \<noteq> rc_offset c" using d(4) [OF e(2) Some] e(1) by blast
      then show "j < seg_next (reclaim c ?s')"
        and "rc_pool e = PoolCPU" and "c_ptr e = Shm (rc_offset e)" and "1 \<le> use_count e"
        and "rc_offset e \<in> set (seg_blocks (reclaim c ?s'))"
        and "rc_offset e \<notin> set (free_offsets (reclaim c ?s'))"
        using d(3) [OF e(2)] fr(1) by auto
    next
      fix j l e f
      assume "seg_ctrl (reclaim c ?s') j = Some e \<and> seg_ctrl (reclaim c ?s') l = Some f
         \<and> rc_offset e = rc_offset f"
      then have "seg_ctrl s j = Some e" "seg_ctrl s l = Some f" "rc_offset e = rc_offset f"
        by (auto split: if_splits)
      then show "j = l" by (rule d(4))
    next
      fix a w
      assume "map_of (ptrs (reclaim c ?s')) a = Some w"
      then have m: "map_of (ptrs s) a = Some w" by simp
      from d(5) [OF m] obtain j e where w: "w = SP j a" "seg_ctrl s j = Some e" "c_ptr e = a" by blast
      have "j \<noteq> i"
      proof
        assume "j = i"
        then have "e = c" using w(2) Some by simp
        then show False using m none w(3) by simp
      qed
      then show "\<exists>j e. w = SP j a \<and> seg_ctrl (reclaim c ?s') j = Some e \<and> c_ptr e = a"
        using w by auto
    qed
  qed
qed

lemma cache_inv_ptrs_delete:
  "cache_inv s \<Longrightarrow> cache_inv (s\<lparr>ptrs := AList.delete a (ptrs s)\<rparr>)"
  unfolding cache_inv_def by (simp add: delete_conv')

lemma cache_inv_destroyLocal:
  assumes inv: "cache_inv s"
  shows "cache_inv (destroyLocal s a)"
proof (cases "map_of (ptrs s) a")
  case None
  then show ?thesis using inv by (simp add: destroyLocal_def)
next
  case (Some w)
  from cache_invD(5) [OF inv Some] obtain i c
    where w: "w = SP i a" "seg_ctrl s i = Some c" "c_ptr c = a" by blast
  let ?s' = "s\<lparr>ptrs := AList.delete a (ptrs s)\<rparr>"
  have "cache_inv (sp_release (SP i a) ?s')"
  proof (rule cache_inv_sp_release [OF cache_inv_ptrs_delete [OF inv]])
    fix d assume "seg_ctrl ?s' i = Some d"
    then have "d = c" using w(2) by simp
    then show "1 < use_count d \<or> map_of (ptrs ?s') (c_ptr d) = None"
      using w(3) by (simp add: delete_conv')
  qed
  then show ?thesis using Some w(1) by (simp add: destroyLocal_def)
qed

lemma cache_inv_dropCpuBuffer:
  "cache_inv s \<Longrightarrow> cache_inv (dropCpuBuffer s b)"
  by (simp add: dropCpuBuffer_def cache_inv_destroyLocal split: deleter.splits)

lemma cache_inv_convert:
  "cache_inv s \<Longrightarrow> cache_inv (snd (convert s b))"
  by (simp add: convert_def cache_inv_sp_copy split: option.splits)

lemma cache_inv_ptrs_update:
  assumes inv: "cache_inv s" and c: "seg_ctrl s i = Some c"
  shows "cache_inv (s\<lparr>ptrs := AList.update (c_ptr c) (SP i (c_ptr c)) (ptrs s)\<rparr>)"
  using assms unfolding cache_inv_def by (simp add: update_conv')

lemma cache_inv_createLocal:
  assumes inv: "cache_inv s" and c: "seg_ctrl s i = Some c"
  shows "cache_inv (snd (createLocal s (SP i (c_ptr c))))"
proof -
  let ?a = "c_ptr c"
  let ?w = "SP i ?a"
  let ?s0 = "s\<lparr>ptrs := AList.update ?a ?w (ptrs s)\<rparr>"
  let ?s1 = "sp_copy ?w ?s0"
  have i0: "cache_inv ?s0" by (rule cache_inv_ptrs_update [OF inv c])
  have i1: "cache_inv ?s1" by (rule cache_inv_sp_copy [OF i0])
  have c1: "seg_ctrl ?s1 i = Some (c\<lparr>use_count := use_count c + 1\<rparr>)"
    using c by (simp add: sp_copy_def)
  have pos: "1 \<le> use_count c" using cache_invD(3) [OF inv c] by simp
  have "cache_inv (sp_release (lookup_default EmptySP (ptrs s) ?a) ?s1)"
  proof (cases "map_of (ptrs s) ?a")
    case None
    then show ?thesis using i1 by (simp add: lookup_default_def sp_release_def)
  next
    case (Some old)
    from cache_invD(5) [OF inv Some] obtain j d
      where o: "old = SP j ?a" "seg_ctrl s j = Some d" "c_ptr d = ?a" by blast
    have "Shm (rc_offset d) = Shm (rc_offset c)"
      using cache_invD(3) [OF inv o(2)] cache_invD(3) [OF inv c] o(3) by simp
    then have "j = i" using cache_invD(4) [OF inv o(2) c] by simp
    have "cache_inv (sp_release (SP i ?a) ?s1)"
    proof (rule cache_inv_sp_release [OF i1])
      fix e assume "seg_ctrl ?s1 i = Some e"
      then have "e = c\<lparr>use_count := use_count c + 1\<rparr>" using c1 by simp
      then show "1 < use_count e \<or> map_of (ptrs ?s1) (c_ptr e) = None" using pos by simp
    qed
    then show ?thesis using Some o(1) \<open>j = i\<close> by (simp add: lookup_default_def)
  qed
  then show ?thesis by (simp add: createLocal_def Let_def)
qed

text \<open>\<open>wrapSHM\<close> in full, when the cache has no entry at the address.\<close>

lemma wrapSHM_fresh_state:
  assumes "map_of (ptrs s) p = None"
  shows "snd (wrapSHM s p off n)
           = s\<lparr>seg_ctrl := (seg_ctrl s)(seg_next s \<mapsto>
                   \<lparr>use_count = 1, c_ptr = p, rc_pool = PoolCPU, rc_offset = off, rc_size = n\<rparr>),
                seg_next := seg_next s + 1,
                ptrs := ptrs s @ [(p, SP (seg_next s) p)]\<rparr>"
  using assms
  by (simp add: wrapSHM_def sp_construct_def sp_copy_def sp_release_def emplace_def)

lemma cache_inv_wrapSHM:
  assumes inv: "cache_inv s"
    and blk: "off \<in> set (seg_blocks s)"
    and nfree: "off \<notin> set (free_offsets s)"
    and nctrl: "\<And>i c. seg_ctrl s i = Some c \<Longrightarrow> rc_offset c \<noteq> off"
  shows "map_of (ptrs s) (Shm off) = None"
    and "cache_inv (snd (wrapSHM s (Shm off) off n))"
proof -
  note d = cache_invD [OF inv]
  show none: "map_of (ptrs s) (Shm off) = None"
  proof (rule ccontr)
    assume "map_of (ptrs s) (Shm off) \<noteq> None"
    then obtain w where "map_of (ptrs s) (Shm off) = Some w" by blast
    from d(5) [OF this] obtain i c where "seg_ctrl s i = Some c" "c_ptr c = Shm off" by blast
    then show False using d(3) [of i c] nctrl [of i c] by simp
  qed
  have top: "seg_ctrl s (seg_next s) = None"
  proof (rule ccontr)
    assume "seg_ctrl s (seg_next s) \<noteq> None"
    then obtain c where "seg_ctrl s (seg_next s) = Some c" by blast
    from d(3) [OF this] show False by simp
  qed
  let ?i = "seg_next s"
  let ?c = "\<lparr>use_count = 1, c_ptr = Shm off, rc_pool = PoolCPU, rc_offset = off, rc_size = n\<rparr>"
  let ?s' = "s\<lparr>seg_ctrl := (seg_ctrl s)(?i \<mapsto> ?c), seg_next := ?i + 1,
                ptrs := ptrs s @ [(Shm off, SP ?i (Shm off))]\<rparr>"
  have "cache_inv ?s'"
    unfolding cache_inv_def
  proof (intro conjI allI impI)
    show "distinct (free_offsets ?s')" using d(1) by simp
    show "set (free_offsets ?s') \<subseteq> set (seg_blocks ?s')" using d(2) by simp
  next
    fix j e
    assume "seg_ctrl ?s' j = Some e"
    then have e: "(j = ?i \<and> e = ?c) \<or> (j \<noteq> ?i \<and> seg_ctrl s j = Some e)"
      by (auto split: if_splits)
    show "j < seg_next ?s'" and "rc_pool e = PoolCPU" and "c_ptr e = Shm (rc_offset e)"
      and "1 \<le> use_count e" and "rc_offset e \<in> set (seg_blocks ?s')"
      and "rc_offset e \<notin> set (free_offsets ?s')"
      using e d(3) [of j e] blk nfree by auto
  next
    fix j l e f
    assume a: "seg_ctrl ?s' j = Some e \<and> seg_ctrl ?s' l = Some f \<and> rc_offset e = rc_offset f"
    then have e: "(j = ?i \<and> e = ?c) \<or> (j \<noteq> ?i \<and> seg_ctrl s j = Some e)"
      and f: "(l = ?i \<and> f = ?c) \<or> (l \<noteq> ?i \<and> seg_ctrl s l = Some f)"
      by (auto split: if_splits)
    show "j = l"
      using a e f nctrl [of j e] nctrl [of l f] d(4) [of j e l f] by auto
  next
    fix a w
    assume "map_of (ptrs ?s') a = Some w"
    then have "(a = Shm off \<and> w = SP ?i (Shm off)) \<or> map_of (ptrs s) a = Some w"
      using none by (auto simp: map_add_def split: option.splits if_splits)
    then show "\<exists>j e. w = SP j a \<and> seg_ctrl ?s' j = Some e \<and> c_ptr e = a"
    proof
      assume "a = Shm off \<and> w = SP ?i (Shm off)"
      then show ?thesis by simp
    next
      assume "map_of (ptrs s) a = Some w"
      from d(5) [OF this] obtain j e where w: "w = SP j a" "seg_ctrl s j = Some e" "c_ptr e = a"
        by blast
      then have "j \<noteq> ?i" using top by auto
      then show ?thesis using w by auto
    qed
  qed
  then show "cache_inv (snd (wrapSHM s (Shm off) off n))"
    by (simp add: wrapSHM_fresh_state [OF none])
qed

lemma cache_inv_pool_upd:
  assumes inv: "cache_inv s"
    and "distinct (concat (map snd (buffers p)))"
    and "set (concat (map snd (buffers p))) \<subseteq> set (free_offsets s)"
  shows "cache_inv (s\<lparr>pool := p\<rparr>)"
proof -
  have f: "free_offsets (s\<lparr>pool := p\<rparr>) = concat (map snd (buffers p))"
    by (simp add: free_offsets_def)
  note d = cache_invD [OF inv]
  show ?thesis
    unfolding cache_inv_def f
  proof (intro conjI allI impI)
    show "distinct (concat (map snd (buffers p)))" by fact
    show "set (concat (map snd (buffers p))) \<subseteq> set (seg_blocks (s\<lparr>pool := p\<rparr>))"
      using assms(3) d(2) by auto
  next
    fix i c assume "seg_ctrl (s\<lparr>pool := p\<rparr>) i = Some c"
    then have c: "seg_ctrl s i = Some c" by simp
    show "i < seg_next (s\<lparr>pool := p\<rparr>)" and "rc_pool c = PoolCPU" and "c_ptr c = Shm (rc_offset c)"
      and "1 \<le> use_count c" and "rc_offset c \<in> set (seg_blocks (s\<lparr>pool := p\<rparr>))"
      and "rc_offset c \<notin> set (concat (map snd (buffers p)))"
      using d(3) [OF c] assms(3) by auto
  next
    fix i j c e
    assume "seg_ctrl (s\<lparr>pool := p\<rparr>) i = Some c \<and> seg_ctrl (s\<lparr>pool := p\<rparr>) j = Some e
       \<and> rc_offset c = rc_offset e"
    then show "i = j" using d(4) [of i c j e] by simp
  next
    fix a w assume "map_of (ptrs (s\<lparr>pool := p\<rparr>)) a = Some w"
    then show "\<exists>i c. w = SP i a \<and> seg_ctrl (s\<lparr>pool := p\<rparr>) i = Some c \<and> c_ptr c = a"
      using d(5) [of a w] by simp
  qed
qed

lemma cache_inv_blocks:
  "cache_inv s \<Longrightarrow> cache_inv (s\<lparr>seg_blocks := x # seg_blocks s\<rparr>)"
  unfolding cache_inv_def by auto

lemma free_offsets_pool_fields [simp]:
  "free_offsets (s\<lparr>pool := (pool s)\<lparr>buffers := bs\<rparr>\<rparr>) = concat (map snd bs)"
  "free_offsets (s\<lparr>pool := (pool s)\<lparr>buffers := bs, allocated := al, sizes := sz\<rparr>\<rparr>) = concat (map snd bs)"
  by (simp_all add: free_offsets_def)

text \<open>The state a free-list hit hands to \<open>wrapSHM\<close>.\<close>

lemma cache_inv_pop:
  fixes n :: size_t
  assumes inv: "cache_inv s"
    and l: "lookup_default [] (emplace n [] (buffers (pool s))) n = xs @ [off]"
  defines "s' \<equiv> s\<lparr>pool := (pool s)\<lparr>buffers := AList.update n xs (emplace n [] (buffers (pool s)))\<rparr>\<rparr>"
  shows "cache_inv s'" and "off \<in> set (seg_blocks s')" and "off \<notin> set (free_offsets s')"
    and "\<And>i c. seg_ctrl s' i = Some c \<Longrightarrow> rc_offset c \<noteq> off"
proof -
  note d = cache_invD [OF inv]
  let ?bs = "emplace n [] (buffers (pool s))"
  have m: "map_of ?bs n = Some (xs @ [off])"
    using l by (simp add: lookup_default_def split: option.splits)
  from flat_update_present [OF m, of xs] obtain A B
    where f: "concat (map snd ?bs) = A @ (xs @ [off]) @ B"
      "concat (map snd (AList.update n xs ?bs)) = A @ xs @ B" by blast
  have fs: "free_offsets s = A @ (xs @ [off]) @ B" using f(1) by (simp add: free_offsets_def)
  have fs': "free_offsets s' = A @ xs @ B" using f(2) by (simp add: s'_def)
  have mem: "off \<in> set (free_offsets s)" by (simp add: fs)
  show "cache_inv s'"
    unfolding s'_def
    by (rule cache_inv_pool_upd [OF inv]) (use d(1) fs f(2) in auto)
  show "off \<in> set (seg_blocks s')" using mem d(2) by (auto simp: s'_def)
  show "off \<notin> set (free_offsets s')" using d(1) by (auto simp: fs fs')
  show "rc_offset c \<noteq> off" if "seg_ctrl s' i = Some c" for i c
  proof -
    from that have "seg_ctrl s i = Some c" by (simp add: s'_def)
    from d(3) [OF this] mem show ?thesis by auto
  qed
qed

text \<open>The state a free-list miss within the budget hands to \<open>wrapSHM\<close>.\<close>

lemma cache_inv_fresh:
  fixes n :: size_t
  assumes inv: "cache_inv s" and fresh: "fresh \<notin> set (seg_blocks s)"
  defines "s' \<equiv> s\<lparr>pool := (pool s)\<lparr>buffers := emplace n [] (buffers (pool s))\<rparr>\<rparr>
                   \<lparr>seg_blocks := fresh # seg_blocks s,
                    pool := (pool s)\<lparr>buffers := emplace n [] (buffers (pool s)),
                       allocated := allocated (pool s) + n,
                       sizes := emplace fresh n (sizes (pool s))\<rparr>\<rparr>"
  shows "cache_inv s'" and "fresh \<in> set (seg_blocks s')" and "fresh \<notin> set (free_offsets s')"
    and "\<And>i c. seg_ctrl s' i = Some c \<Longrightarrow> rc_offset c \<noteq> fresh"
proof -
  note d = cache_invD [OF inv]
  have f: "free_offsets s' = free_offsets s" by (simp add: s'_def free_offsets_def)
  show "cache_inv s'"
    using inv unfolding cache_inv_def f by (auto simp: s'_def)
  show "fresh \<in> set (seg_blocks s')" by (simp add: s'_def)
  show "fresh \<notin> set (free_offsets s')" using d(2) fresh by (auto simp: f)
  show "rc_offset c \<noteq> fresh" if "seg_ctrl s' i = Some c" for i c
  proof -
    from that have "seg_ctrl s i = Some c" by (simp add: s'_def)
    from d(3) [OF this] fresh show ?thesis by auto
  qed
qed

lemma requestSHM_cases:
  obtains (hit) xs off where "lookup_default [] (emplace n [] (buffers (pool s))) n = xs @ [off]"
      "requestSHM e s n found
         = returns (wrapSHM (s\<lparr>pool := (pool s)\<lparr>buffers := AList.update n xs (emplace n [] (buffers (pool s)))\<rparr>\<rparr>)
             (Shm off) off n)"
  | (miss) fresh where "found = Some fresh"
      "requestSHM e s n found
         = returns (wrapSHM (s\<lparr>pool := (pool s)\<lparr>buffers := emplace n [] (buffers (pool s))\<rparr>\<rparr>
                   \<lparr>seg_blocks := fresh # seg_blocks s,
                    pool := (pool s)\<lparr>buffers := emplace n [] (buffers (pool s)),
                       allocated := allocated (pool s) + n,
                       sizes := emplace fresh n (sizes (pool s))\<rparr>\<rparr>)
             (Shm fresh) fresh n)"
  | (throw) x where "requestSHM e s n found
         = (Inl x, s\<lparr>pool := (pool s)\<lparr>buffers := emplace n [] (buffers (pool s))\<rparr>\<rparr>)"
  | (fail) "requestSHM e s n found
         = (Inr emptyCpuBuffer, s\<lparr>pool := (pool s)\<lparr>buffers := emplace n [] (buffers (pool s))\<rparr>\<rparr>)"
proof (cases "lookup_default [] (emplace n [] (buffers (pool s))) n = []")
  case True
  show ?thesis
  proof (cases "dless (to_double (allocated (pool s) + n))
                  (dmul (to_double (shmSize s)) (MAX_SHM_USAGE_FRAC e))")
    case pass: True
    show ?thesis
    proof (cases "construct_bytes n found")
      case (Inl x)
      show ?thesis
        by (rule throw [of x]) (use True pass Inl in \<open>simp add: requestSHM_def Let_def\<close>)
    next
      case (Inr fresh)
      show ?thesis
        by (rule miss [of fresh])
          (use True pass Inr construct_bytes_Inr [OF Inr] in \<open>simp_all add: requestSHM_def Let_def\<close>)
    qed
  next
    case False
    show ?thesis
      by (rule fail) (use True False in \<open>simp add: requestSHM_def Let_def\<close>)
  qed
next
  case False
  let ?L = "lookup_default [] (emplace n [] (buffers (pool s))) n"
  have "?L = butlast ?L @ [last ?L]" using False by simp
  moreover have "requestSHM e s n found
         = returns (wrapSHM (s\<lparr>pool := (pool s)\<lparr>buffers := AList.update n (butlast ?L) (emplace n [] (buffers (pool s)))\<rparr>\<rparr>)
             (Shm (last ?L)) (last ?L) n)"
    using False by (simp add: requestSHM_def Let_def)
  ultimately show ?thesis by (rule hit)
qed

lemma cache_inv_requestSHM:
  assumes inv: "cache_inv s" and fresh: "found \<notin> Some ` set (seg_blocks s)"
  shows "cache_inv (snd (requestSHM e s n found))"
    and "fst (requestSHM e s n found) = Inr b \<Longrightarrow> cb_get b \<noteq> Null \<Longrightarrow>
           map_of (ptrs s) (cb_get b) = None"
proof -
  have "cache_inv (snd (requestSHM e s n found))
      \<and> (fst (requestSHM e s n found) = Inr b \<and> cb_get b \<noteq> Null \<longrightarrow>
           map_of (ptrs s) (cb_get b) = None)"
  proof (cases rule: requestSHM_cases [of n s e found])
    case (hit xs off)
    note p = cache_inv_pop [OF inv hit(1)]
    note w = cache_inv_wrapSHM(1) [OF p(1) p(2) p(3) p(4)]
      cache_inv_wrapSHM(2) [OF p(1) p(2) p(3) p(4), where n = n]
    show ?thesis using w by (auto simp: hit(2))
  next
    case (miss fresh')
    have f: "fresh' \<notin> set (seg_blocks s)" using fresh miss(1) by auto
    note p = cache_inv_fresh [OF inv f, where n = n]
    note w = cache_inv_wrapSHM(1) [OF p(1) p(2) p(3) p(4)]
      cache_inv_wrapSHM(2) [OF p(1) p(2) p(3) p(4), where n = n]
    show ?thesis using w by (auto simp: miss(2))
  next
    case (throw x)
    have "cache_inv (s\<lparr>pool := (pool s)\<lparr>buffers := emplace n [] (buffers (pool s))\<rparr>\<rparr>)"
      by (rule cache_inv_pool_upd [OF inv]) (use cache_invD(1) [OF inv] in \<open>auto simp: free_offsets_def\<close>)
    then show ?thesis by (simp add: throw)
  next
    case fail
    have "cache_inv (s\<lparr>pool := (pool s)\<lparr>buffers := emplace n [] (buffers (pool s))\<rparr>\<rparr>)"
      by (rule cache_inv_pool_upd [OF inv]) (use cache_invD(1) [OF inv] in \<open>auto simp: free_offsets_def\<close>)
    then show ?thesis by (auto simp: fail emptyCpuBuffer_def)
  qed
  then show "cache_inv (snd (requestSHM e s n found))"
    and "fst (requestSHM e s n found) = Inr b \<Longrightarrow> cb_get b \<noteq> Null \<Longrightarrow>
           map_of (ptrs s) (cb_get b) = None"
    by simp_all
qed

lemma cache_inv_attach:
  "cache_inv (MemoryPoolIPCHybrid_ctor e newSegment cpuBudget gpuBudget enableAuditor)"
  by (simp add: cache_inv_def free_offsets_def MemoryPoolIPCHybrid_ctor_def newSegment_def
      emptyPool_def invalidate_def Let_def)

lemma cache_inv_activateStream:
  "cache_inv s \<Longrightarrow> cache_inv (activateStream s sid active)"
  by (simp add: cache_inv_def free_offsets_def activateStream_def)

lemma cache_inv_getBufferFromPool:
  "cache_inv s \<Longrightarrow> found \<notin> Some ` set (seg_blocks s) \<Longrightarrow>
     cache_inv (snd (getBufferFromPool e s sid n found localBuf))"
  using cache_inv_requestSHM(1) [of s found e n]
  by (auto simp: getBufferFromPool_def split: prod.splits sum.splits)

lemma cache_inv_isBufferFromPool:
  assumes inv: "cache_inv s"
  shows "cache_inv (snd (isBufferFromPool s b))"
proof (cases "map_of (ptrs s) (cb_get b)")
  case None
  then show ?thesis using inv by (simp add: isBufferFromPool_def convert_def sp_release_def)
next
  case (Some w)
  from cache_invD(5) [OF inv Some] obtain i c
    where w: "w = SP i (cb_get b)" "seg_ctrl s i = Some c" by blast
  have pos: "1 \<le> use_count c" using cache_invD(3) [OF inv w(2)] by simp
  have "cache_inv (sp_release (SP i (cb_get b)) (sp_copy w s))"
  proof (rule cache_inv_sp_release [OF cache_inv_sp_copy [OF inv]])
    fix d assume "seg_ctrl (sp_copy w s) i = Some d"
    then have "d = c\<lparr>use_count := use_count c + 1\<rparr>" using w by (simp add: sp_copy_def)
    then show "1 < use_count d \<or> map_of (ptrs (sp_copy w s)) (c_ptr d) = None" using pos by simp
  qed
  then show ?thesis using Some w(1) by (simp add: isBufferFromPool_def convert_def)
qed

lemma cache_inv_direct:
  assumes "cache_inv s" "found \<notin> Some ` set (seg_blocks s)"
  shows "cache_inv (snd (getBufferFromSharedPoolDirect e s n found))"
proof (cases "requestSHM e s n found")
  case (Pair r s1)
  have c: "cache_inv s1"
    using cache_inv_requestSHM(1) [OF assms, of e n] Pair by simp
  show ?thesis
  proof (cases r)
    case (Inl x)
    then show ?thesis using c Pair by (simp add: getBufferFromSharedPoolDirect_def)
  next
    case (Inr tmp)
    have "cache_inv (dropCpuBuffer (snd (convert s1 tmp)) tmp)"
      by (intro cache_inv_dropCpuBuffer cache_inv_convert c)
    then show ?thesis
      using Pair Inr by (simp add: getBufferFromSharedPoolDirect_def case_prod_beta)
  qed
qed

text \<open>Every reachable state is well-formed.\<close>

lemma reachable_cache_inv:
  "reachable e s \<Longrightarrow> cache_inv s"
proof (induction rule: reachable.induct)
  case (attach cpuBudget gpuBudget enableAuditor)
  show ?case by (rule cache_inv_attach)
next
  case (request s found n)
  then show ?case by (simp add: cache_inv_requestSHM(1))
next
  case (get_buffer s found sid n localBuf)
  then show ?case by (simp add: cache_inv_getBufferFromPool)
next
  case (direct s found n)
  then show ?case by (simp add: cache_inv_direct)
next
  case (drop s b)
  then show ?case by (simp add: cache_inv_dropCpuBuffer)
next
  case (convert s b)
  then show ?case by (simp add: cache_inv_convert)
next
  case (probe s b)
  then show ?case by (simp add: cache_inv_isBufferFromPool)
next
  case (create_local s i c)
  then show ?case by (simp add: cache_inv_createLocal)
next
  case (activate s sid active)
  then show ?case by (simp add: cache_inv_activateStream)
next
  case (holder_copies s w)
  then show ?case by (simp add: cache_inv_sp_copy)
next
  case (holder_releases s i c p)
  show ?case
  proof (rule cache_inv_sp_release [OF holder_releases.IH])
    fix d assume "seg_ctrl s i = Some d"
    then have "d = c" using holder_releases.hyps(2) by simp
    then show "1 < use_count d \<or> map_of (ptrs s) (c_ptr d) = None"
      using holder_releases.hyps(3) by simp
  qed
qed

lemma reachable_no_entry:
  assumes "reachable e s" "found \<notin> Some ` set (seg_blocks s)"
    and "fst (requestSHM e s n found) = Inr b" "cb_get b \<noteq> Null"
  shows "map_of (ptrs s) (cb_get b) = None"
  using cache_inv_requestSHM(2) [OF reachable_cache_inv [OF assms(1)] assms(2) assms(3) assms(4)] .

text \<open>
  Claim C4. In a state reachable through the CPU operations of the pool, let
  \<open>requestSHM(n)\<close> return a non-empty buffer (a block the segment manager finds being
  at an offset of no live object). After the buffer is dropped, \<open>requestSHM(n)\<close> in the
  same process returns the same buffer: the same raw address, hence the same offset,
  whatever the segment manager would find. No segment memory is consumed: \<open>allocated\<close>,
  \<open>sizes\<close> and the objects of the segment are as after the first request, and so is
  the free-list of \<open>n\<close>: the second request pops the entry the drop pushed.
\<close>

theorem requestSHM_lifo:
  assumes "reachable e s"
    and "f1 \<notin> Some ` set (seg_blocks s)"
    and "fst (requestSHM e s n f1) = Inr b"
    and "cb_get b \<noteq> Null"
  shows "fst (requestSHM e (dropCpuBuffer (snd (requestSHM e s n f1)) b) n f2) = Inr b
       \<and> allocated (pool (snd (requestSHM e (dropCpuBuffer (snd (requestSHM e s n f1)) b) n f2)))
           = allocated (pool (snd (requestSHM e s n f1)))
       \<and> sizes (pool (snd (requestSHM e (dropCpuBuffer (snd (requestSHM e s n f1)) b) n f2)))
           = sizes (pool (snd (requestSHM e s n f1)))
       \<and> seg_blocks (snd (requestSHM e (dropCpuBuffer (snd (requestSHM e s n f1)) b) n f2))
           = seg_blocks (snd (requestSHM e s n f1))
       \<and> lookup_default [] (buffers (pool (snd (requestSHM e
               (dropCpuBuffer (snd (requestSHM e s n f1)) b) n f2)))) n
           = lookup_default [] (buffers (pool (snd (requestSHM e s n f1)))) n"
  by (rule requestSHM_lifo_no_entry [OF assms(3) assms(4) reachable_no_entry [OF assms]])

text \<open>
  In a new segment: 1024 bytes are served at offset 0; dropped and requested again,
  they are served at offset 0 again, not at the offset 5000 the segment manager would
  hand out, and \<open>allocated\<close> stays 1024.
\<close>

theorem requestSHM_lifo_witness:
  "reachable posix_env (attached 1048576)
   \<and> Some 0 \<notin> Some ` set (seg_blocks (attached 1048576))
   \<and> fst (requestSHM posix_env (attached 1048576) 1024 (Some 0)) = Inr (CpuBuffer (Shm 0) DestroyLocal)
   \<and> cb_get (CpuBuffer (Shm 0) DestroyLocal) \<noteq> Null
   \<and> fst (requestSHM posix_env
           (dropCpuBuffer (snd (requestSHM posix_env (attached 1048576) 1024 (Some 0)))
              (CpuBuffer (Shm 0) DestroyLocal)) 1024 (Some 5000))
       = Inr (CpuBuffer (Shm 0) DestroyLocal)
   \<and> allocated (pool (snd (requestSHM posix_env
           (dropCpuBuffer (snd (requestSHM posix_env (attached 1048576) 1024 (Some 0)))
              (CpuBuffer (Shm 0) DestroyLocal)) 1024 (Some 5000)))) = 1024
   \<and> seg_blocks (snd (requestSHM posix_env
           (dropCpuBuffer (snd (requestSHM posix_env (attached 1048576) 1024 (Some 0)))
              (CpuBuffer (Shm 0) DestroyLocal)) 1024 (Some 5000))) = [0]"
proof -
  have r: "fst (requestSHM posix_env (attached 1048576) 1024 (Some 0)) = Inr (CpuBuffer (Shm 0) DestroyLocal)"
    by (simp add: run_defs)
  have p: "reachable posix_env (attached 1048576)"
    unfolding attached_def by (rule reachable.attach)
  have b: "Some 0 \<notin> Some ` set (seg_blocks (attached 1048576))"
    by (simp add: run_defs)
  have a: "allocated (pool (snd (requestSHM posix_env (attached 1048576) 1024 (Some 0)))) = 1024"
      "seg_blocks (snd (requestSHM posix_env (attached 1048576) 1024 (Some 0))) = [0]"
    by (simp_all add: run_defs)
  show ?thesis
    using requestSHM_lifo [where e = posix_env and s = "attached 1048576" and n = 1024
        and ?f1.0 = "Some 0" and ?f2.0 = "Some 5000" and b = "CpuBuffer (Shm 0) DestroyLocal"] r p b a
    by simp
qed


text \<open>The definitions a run of the CPU scenarios unfolds.\<close>

lemmas cpu_defs = two_allocs_def both_dropped_def one_alloc_def one_alloc_conv_def second_handle_def
  second_dropped_def convert_def createLocal_def destroyLocal_def dropCpuBuffer_def sp_use_count_def

text \<open>
  Two allocations of 4096 bytes, both dropped: \<open>allocated\<close> is 8192 before and after the
  drops, \<open>sizes\<close> and the objects of the segment are as before, \<open>buffers[4096]\<close> holds
  the two offsets in the order of the drops, and a third allocation pops the tail
  (offset 4096), leaving one entry and consuming no segment memory. And a drop that is
  not the last reference (use count 2) leaves the pool as it is.
\<close>

theorem drop_last_reference_witness:
  "allocated (pool two_allocs) = 8192
   \<and> map_of (ptrs two_allocs) (Shm 0) = Some (SP 0 (Shm 0))
   \<and> seg_ctrl two_allocs 0
       = Some \<lparr>use_count = 1, c_ptr = Shm 0, rc_pool = PoolCPU, rc_offset = 0, rc_size = 4096\<rparr>
   \<and> lookup_default [] (buffers (pool two_allocs)) 4096 = []
   \<and> lookup_default [] (buffers (pool (destroyLocal two_allocs (Shm 0)))) 4096 = [0]
   \<and> allocated (pool (destroyLocal two_allocs (Shm 0))) = 8192
   \<and> seg_blocks (destroyLocal two_allocs (Shm 0)) = seg_blocks two_allocs
   \<and> allocated (pool both_dropped) = 8192
   \<and> sizes (pool both_dropped) = [(0, 4096), (4096, 4096)]
   \<and> seg_blocks both_dropped = [4096, 0]
   \<and> lookup_default [] (buffers (pool both_dropped)) 4096 = [0, 4096]
   \<and> fst (requestSHM posix_env both_dropped 4096 (Some 8192)) = Inr (CpuBuffer (Shm 4096) DestroyLocal)
   \<and> lookup_default [] (buffers (pool (snd (requestSHM posix_env both_dropped 4096 (Some 8192))))) 4096 = [0]
   \<and> allocated (pool (snd (requestSHM posix_env both_dropped 4096 (Some 8192)))) = 8192
   \<and> seg_blocks (snd (requestSHM posix_env both_dropped 4096 (Some 8192))) = [4096, 0]
   \<and> map_of (ptrs (snd second_handle)) (Shm 0) = Some (SP 0 (Shm 0))
   \<and> seg_ctrl (snd second_handle) 0
       = Some \<lparr>use_count = 2, c_ptr = Shm 0, rc_pool = PoolCPU, rc_offset = 0, rc_size = 16\<rparr>
   \<and> pool (destroyLocal (snd second_handle) (Shm 0)) = pool (snd second_handle)"
proof -
  have e2: "map_of (ptrs (snd second_handle)) (Shm 0) = Some (SP 0 (Shm 0))"
    by (simp add: cpu_defs run_defs)
  have c2: "seg_ctrl (snd second_handle) 0
       = Some \<lparr>use_count = 2, c_ptr = Shm 0, rc_pool = PoolCPU, rc_offset = 0, rc_size = 16\<rparr>"
    by (simp add: cpu_defs run_defs)
  have n2: "pool (destroyLocal (snd second_handle) (Shm 0)) = pool (snd second_handle)"
    using drop_last_reference [where s = "snd second_handle" and a = "Shm 0" and i = 0 and p = "Shm 0"
      and c = "\<lparr>use_count = 2, c_ptr = Shm 0, rc_pool = PoolCPU, rc_offset = 0, rc_size = 16\<rparr>"]
      e2 c2
    by simp
  have e: "map_of (ptrs two_allocs) (Shm 0) = Some (SP 0 (Shm 0))"
    by (simp add: cpu_defs run_defs)
  have c: "seg_ctrl two_allocs 0
       = Some \<lparr>use_count = 1, c_ptr = Shm 0, rc_pool = PoolCPU, rc_offset = 0, rc_size = 4096\<rparr>"
    by (simp add: cpu_defs run_defs)
  have a: "allocated (pool two_allocs) = 8192" "lookup_default [] (buffers (pool two_allocs)) 4096 = []"
    by (simp_all add: cpu_defs run_defs)
  note t = drop_last_reference [where s = two_allocs and a = "Shm 0" and i = 0 and p = "Shm 0"
      and c = "\<lparr>use_count = 1, c_ptr = Shm 0, rc_pool = PoolCPU, rc_offset = 0, rc_size = 4096\<rparr>"]
  have d1: "lookup_default [] (buffers (pool (destroyLocal two_allocs (Shm 0)))) 4096 = [0]"
       "allocated (pool (destroyLocal two_allocs (Shm 0))) = 8192"
       "seg_blocks (destroyLocal two_allocs (Shm 0)) = seg_blocks two_allocs"
    using t e c a by simp_all
  have b: "allocated (pool both_dropped) = 8192"
       "sizes (pool both_dropped) = [(0, 4096), (4096, 4096)]"
       "seg_blocks both_dropped = [4096, 0]"
       "lookup_default [] (buffers (pool both_dropped)) 4096 = [0, 4096]"
    by (simp_all add: cpu_defs run_defs)
  have r: "fst (requestSHM posix_env both_dropped 4096 (Some 8192)) = Inr (CpuBuffer (Shm 4096) DestroyLocal)"
       "lookup_default [] (buffers (pool (snd (requestSHM posix_env both_dropped 4096 (Some 8192))))) 4096 = [0]"
       "allocated (pool (snd (requestSHM posix_env both_dropped 4096 (Some 8192)))) = 8192"
       "seg_blocks (snd (requestSHM posix_env both_dropped 4096 (Some 8192))) = [4096, 0]"
    by (simp_all add: cpu_defs run_defs)
  show ?thesis using e c a d1 b r e2 c2 n2 by simp
qed

section \<open>Cache entries and shared references\<close>

lemma sp_use_count_release:
  "sp_use_count w (sp_release w s) = sp_use_count w s - 1"
  by (cases w) (auto simp: sp_use_count_def sp_release_def split: option.splits)

lemma seg_ctrl_ptrs_upd [simp]: "sp_use_count w (s\<lparr>ptrs := x\<rparr>) = sp_use_count w s"
  by (cases w) (simp_all add: sp_use_count_def)

lemma seg_ctrl_handles_upd [simp]: "sp_use_count w (s\<lparr>handlesGPU := x\<rparr>) = sp_use_count w s"
  by (cases w) (simp_all add: sp_use_count_def)

lemma createLocal_entry:
  "map_of (ptrs (snd (createLocal s w))) (cb_get (fst (createLocal s w))) = Some w"
  by (simp add: createLocal_def Let_def update_conv')

lemma createLocal_count:
  assumes "seg_ctrl s i = Some c"
  shows "sp_use_count (SP i p) (snd (createLocal s (SP i p)))
           = (case map_of (ptrs s) p of
                Some (SP j q) \<Rightarrow> if j = i then use_count c else use_count c + 1
              | _ \<Rightarrow> use_count c + 1)"
  using assms
  by (auto simp: createLocal_def Let_def lookup_default_def sp_copy_def sp_release_def
      sp_use_count_def split: option.splits SharedPtr.splits)

lemma requestSHM_entry:
  assumes "fst (requestSHM e s n found) = Inr b" and "cb_get b \<noteq> Null"
  shows "\<exists>w. map_of (ptrs (snd (requestSHM e s n found))) (cb_get b) = Some w"
proof -
  obtain s' off where r: "requestSHM e s n found = returns (wrapSHM s' (Shm off) off n)"
    using assms by (rule requestSHM_success)
  with assms(1) have "cb_get b = Shm off" by auto
  then show ?thesis using wrapSHM_ptrs_key [of s' "Shm off" off n] by (simp add: r)
qed

text \<open>
  After a successful request whose address had no cache entry, the entry holds the new
  wrapper, and it holds the only reference to it.
\<close>

lemma requestSHM_entry_count:
  assumes "fst (requestSHM e s n found) = Inr b" and "cb_get b \<noteq> Null"
    and "map_of (ptrs s) (cb_get b) = None"
  shows "map_of (ptrs (snd (requestSHM e s n found))) (cb_get b) = Some (SP (seg_next s) (cb_get b))"
    and "sp_use_count (SP (seg_next s) (cb_get b)) (snd (requestSHM e s n found)) = 1"
proof -
  obtain s' off where r: "requestSHM e s n found = returns (wrapSHM s' (Shm off) off n)"
    and p: "ptrs s' = ptrs s" and q: "seg_next s' = seg_next s"
    using assms(1,2) by (rule requestSHM_success)
  with assms(1) have a: "cb_get b = Shm off" by auto
  have ns: "map_of (ptrs s') (Shm off) = None" using assms(3) a p by simp
  note k = wrapSHM_fresh_key [OF ns, of off n]
  show "map_of (ptrs (snd (requestSHM e s n found))) (cb_get b) = Some (SP (seg_next s) (cb_get b))"
    using k(1) by (simp add: r a q)
  show "sp_use_count (SP (seg_next s) (cb_get b)) (snd (requestSHM e s n found)) = 1"
    using k(2) by (simp add: r a q sp_use_count_def)
qed

text \<open>In a reachable state every cache entry holds a reference.\<close>

lemma reachable_entry_live:
  assumes "reachable e s" and "map_of (ptrs s) a = Some w"
  shows "1 \<le> sp_use_count w s"
proof -
  note d = cache_invD [OF reachable_cache_inv [OF assms(1)]]
  from d(5) [OF assms(2)] obtain i c where w: "w = SP i a" "seg_ctrl s i = Some c" by blast
  then show ?thesis using d(3) [OF w(2)] by (simp add: sp_use_count_def)
qed

lemma destroyLocal_entry:
  "map_of (ptrs s) a = Some w \<Longrightarrow>
     map_of (ptrs (destroyLocal s a)) a = None
     \<and> sp_use_count w (destroyLocal s a) = sp_use_count w s - 1"
  by (simp add: destroyLocal_def delete_conv' sp_use_count_release)

lemma destroyLocal_absent:
  "map_of (ptrs s) a = None \<Longrightarrow> destroyLocal s a = s"
  by (simp add: destroyLocal_def)

lemma destroyLocalGPU_entry:
  "read_handle s r = Some h \<Longrightarrow> map_of (handlesGPU s) h = Some w \<Longrightarrow>
     map_of (handlesGPU (destroyLocalGPU s r)) h = None
     \<and> sp_use_count w (destroyLocalGPU s r) = sp_use_count w s - 1"
  by (simp add: destroyLocalGPU_def delete_conv' sp_use_count_release)

lemma destroyLocalGPU_absent:
  "read_handle s r = Some h \<Longrightarrow> map_of (handlesGPU s) h = None \<Longrightarrow> destroyLocalGPU s r = s"
  by (simp add: destroyLocalGPU_def)

lemma sp_use_count_cong:
  "seg_ctrl s = seg_ctrl s' \<Longrightarrow> sp_use_count w s = sp_use_count w s'"
  by (cases w) (simp_all add: sp_use_count_def)

lemma assign_handle_count:
  assumes "seg_ctrl s i = Some c"
  shows "sp_use_count (SP i p) (assign_handle h (SP i p) s)
           = (case map_of (handlesGPU s) h of
                Some (SP j q) \<Rightarrow> if j = i then use_count c else use_count c + 1
              | _ \<Rightarrow> use_count c + 1)"
  using assms
  by (auto simp: assign_handle_def Let_def lookup_default_def sp_copy_def sp_release_def
      sp_use_count_def split: option.splits SharedPtr.splits)

lemma createLocalGPU_state:
  assumes "gpu_get (fst (createLocalGPU e s w os view)) = GLocal d"
  shows "\<exists>m. seg_ctrl (snd (createLocalGPU e s w os view))
              = seg_ctrl (assign_handle (gb_handle d) w (s\<lparr>gpuHandleProcMap := m\<rparr>))"
proof (cases "sp_get w")
  case (Shm off)
  let ?handle = "gb_handle (fst (seg_gpu s off))"
  have ne: "\<not> (map_of (gpuHandleProcMap s) ?handle = None \<and> win32 e \<and> \<not> dupResult os)"
  proof
    assume "map_of (gpuHandleProcMap s) ?handle = None \<and> win32 e \<and> \<not> dupResult os"
    then have "createLocalGPU e s w os view = (emptyGpuBuffer, s)"
      using Shm by (simp add: createLocalGPU_def Let_def)
    with assms show False by (simp add: emptyGpuBuffer_def)
  qed
  define nh where "nh = (case map_of (gpuHandleProcMap s) ?handle of
                        None \<Rightarrow> (if win32 e then tempHandle os else of_int (open_result os))
                      | Some h \<Rightarrow> h)"
  define s2 where "s2 = assign_handle nh w (s\<lparr>gpuHandleProcMap := AList.update ?handle nh (gpuHandleProcMap s)\<rparr>)"
  have f: "gpu_get (fst (createLocalGPU e s w os view))
             = GLocal \<lparr>gb_handle = nh, gb_size = gb_size (fst (seg_gpu s off)),
                       gb_memoryTypeIndex = gb_memoryTypeIndex (fst (seg_gpu s off))\<rparr>"
    using Shm ne by (auto simp: createLocalGPU_def Let_def nh_def)
  with assms have d: "gb_handle d = nh" by auto
  have "seg_ctrl (snd (createLocalGPU e s w os view)) = seg_ctrl s2"
    using Shm ne by (auto simp: createLocalGPU_def Let_def nh_def s2_def)
  then show ?thesis unfolding s2_def d by blast
next
  case Null
  then have "createLocalGPU e s w os view = (emptyGpuBuffer, s)" by (simp add: createLocalGPU_def)
  with assms show ?thesis by (simp add: emptyGpuBuffer_def)
next
  case (Heap x)
  then have "createLocalGPU e s w os view = (emptyGpuBuffer, s)" by (simp add: createLocalGPU_def)
  with assms show ?thesis by (simp add: emptyGpuBuffer_def)
qed

lemma createLocalGPU_count:
  assumes "seg_ctrl s i = Some c"
    and "gpu_get (fst (createLocalGPU e s (SP i p) os view)) = GLocal d"
  shows "sp_use_count (SP i p) (snd (createLocalGPU e s (SP i p) os view))
           = (case map_of (handlesGPU s) (gb_handle d) of
                Some (SP j q) \<Rightarrow> if j = i then use_count c else use_count c + 1
              | _ \<Rightarrow> use_count c + 1)"
proof -
  from createLocalGPU_state [OF assms(2)] obtain m
    where m: "seg_ctrl (snd (createLocalGPU e s (SP i p) os view))
              = seg_ctrl (assign_handle (gb_handle d) (SP i p) (s\<lparr>gpuHandleProcMap := m\<rparr>))"
    by blast
  have "sp_use_count (SP i p) (snd (createLocalGPU e s (SP i p) os view))
          = sp_use_count (SP i p) (assign_handle (gb_handle d) (SP i p) (s\<lparr>gpuHandleProcMap := m\<rparr>))"
    by (rule sp_use_count_cong [OF m])
  also have "\<dots> = (case map_of (handlesGPU (s\<lparr>gpuHandleProcMap := m\<rparr>)) (gb_handle d) of
                Some (SP j q) \<Rightarrow> if j = i then use_count c else use_count c + 1
              | _ \<Rightarrow> use_count c + 1)"
    by (rule assign_handle_count) (simp add: assms(1))
  finally show ?thesis by simp
qed

lemma createLocalGPU_entry:
  assumes "gpu_get (fst (createLocalGPU e s w os view)) = GLocal d"
  shows "map_of (handlesGPU (snd (createLocalGPU e s w os view))) (gb_handle d) = Some w"
  using assms
  by (auto simp: createLocalGPU_def assign_handle_def Let_def update_conv' emptyGpuBuffer_def
      split: addr.splits if_splits)

lemma wrapGPU_entry:
  "gpu_get (fst (wrapGPU s pl off n dl)) = GSeg off"
  "\<exists>w. map_of (handlesGPU (snd (wrapGPU s pl off n dl))) (gb_handle (fst (seg_gpu s off))) = Some w"
  "seg_gpu (snd (wrapGPU s pl off n dl)) = seg_gpu s"
proof -
  show "gpu_get (fst (wrapGPU s pl off n dl)) = GSeg off"
    by (simp add: wrapGPU_def sp_construct_def Let_def)
  show "seg_gpu (snd (wrapGPU s pl off n dl)) = seg_gpu s"
    by (simp add: wrapGPU_def sp_construct_def sp_copy_def sp_release_def reclaim_def Let_def
        split: option.splits)
  show "\<exists>w. map_of (handlesGPU (snd (wrapGPU s pl off n dl))) (gb_handle (fst (seg_gpu s off))) = Some w"
    by (cases "map_of (handlesGPU s) (gb_handle (fst (seg_gpu s off)))")
      (simp_all add: wrapGPU_def sp_construct_def Let_def map_of_emplace_absent)
qed

text \<open>
  What \<open>wrapGPU\<close> leaves behind when the cache had no entry at the handle: the entry
  holds the new wrapper, and it holds the only reference to it.
\<close>

lemma wrapGPU_fresh_entry:
  assumes "map_of (handlesGPU s) (gb_handle (fst (seg_gpu s off))) = None"
  shows "map_of (handlesGPU (snd (wrapGPU s pl off n dl))) (gb_handle (fst (seg_gpu s off)))
           = Some (SP (seg_next s) (Shm off))"
    and "sp_use_count (SP (seg_next s) (Shm off)) (snd (wrapGPU s pl off n dl)) = 1"
  using assms
  by (simp_all add: wrapGPU_def sp_construct_def sp_copy_def sp_release_def sp_use_count_def
      Let_def map_of_emplace_absent)

lemma findBuffer_cache_fields [simp]:
  "handlesGPU (snd (findBuffer e s n pl)) = handlesGPU s"
  "seg_next (snd (findBuffer e s n pl)) = seg_next s"
  "seg_gpu (snd (findBuffer e s n pl)) = seg_gpu s"
  by (simp_all add: findBuffer_def Let_def split: option.splits prod.splits)

lemma getGpuBufferFromPool_wrap:
  assumes ok: "gpu_get (fst (getGpuBufferFromPool e s n dl va view fresh)) = GSeg off"
  shows "\<exists>s' pl. getGpuBufferFromPool e s n dl va view fresh = wrapGPU s' pl off n dl
           \<and> handlesGPU s' = handlesGPU s \<and> seg_next s' = seg_next s"
proof -
  let ?G = "getGpuBufferFromPool e s n dl va view fresh"
  let ?pl = "if dl then PoolGPUDeviceLocal else PoolGPU"
  have act: "vk_active s"
  proof (rule ccontr)
    assume "\<not> vk_active s"
    then have "?G = (emptyGpuBuffer, s)" by (simp add: getGpuBufferFromPool_def)
    with ok show False by (simp add: emptyGpuBuffer_def)
  qed
  obtain r s1 where f: "findBuffer e s n ?pl = (r, s1)" by (cases "findBuffer e s n ?pl")
  have s1: "handlesGPU s1 = handlesGPU s" "seg_next s1 = seg_next s"
    using findBuffer_cache_fields [of e s n ?pl] f by simp_all
  show ?thesis
  proof (cases r)
    case (Some a)
    obtain o' ptr where a: "a = (o', ptr)" by (cases a)
    have G: "?G = wrapGPU s1 ?pl o' n dl"
      using act f Some a by (simp add: getGpuBufferFromPool_def Let_def)
    with ok have "o' = off" by (simp add: wrapGPU_entry(1))
    with G s1 show ?thesis by blast
  next
    case None
    let ?p = "get_pool ?pl s1"
    let ?s2 = "s1\<lparr>gpuMappedBuffers := AList.update (fst va) view (gpuMappedBuffers s1),
                  seg_blocks := fresh # seg_blocks s1,
                  seg_gpu := (seg_gpu s1)(fresh :=
                    (\<lparr>gb_handle = fst va, gb_size = n, gb_memoryTypeIndex = snd va\<rparr>, getpid e))\<rparr>"
    let ?s3 = "set_pool ?pl (?p\<lparr>allocated := allocated ?p + n, sizes := emplace fresh n (sizes ?p)\<rparr>) ?s2"
    have G0: "?G = (if allocated ?p + n < shmGPUSize s1
                    then if fst va = 0 then (emptyGpuBuffer, s1) else wrapGPU ?s3 ?pl fresh n dl
                    else (emptyGpuBuffer, s1))"
      using act f None by (simp add: getGpuBufferFromPool_def Let_def)
    have G: "?G = wrapGPU ?s3 ?pl fresh n dl"
    proof (rule ccontr)
      assume "?G \<noteq> wrapGPU ?s3 ?pl fresh n dl"
      with G0 have "?G = (emptyGpuBuffer, s1)" by (simp split: if_splits)
      with ok show False by (simp add: emptyGpuBuffer_def)
    qed
    with ok have "fresh = off" by (simp add: wrapGPU_entry(1))
    moreover have "handlesGPU ?s3 = handlesGPU s" "seg_next ?s3 = seg_next s"
      using s1 by simp_all
    ultimately show ?thesis using G by blast
  qed
qed

lemma getGpuBufferFromPool_fresh_entry:
  assumes ok: "gpu_get (fst (getGpuBufferFromPool e s n dl va view fresh)) = GSeg off"
    and none: "map_of (handlesGPU s)
                 (gb_handle (fst (seg_gpu (snd (getGpuBufferFromPool e s n dl va view fresh)) off))) = None"
  shows "map_of (handlesGPU (snd (getGpuBufferFromPool e s n dl va view fresh)))
           (gb_handle (fst (seg_gpu (snd (getGpuBufferFromPool e s n dl va view fresh)) off)))
           = Some (SP (seg_next s) (Shm off))"
    and "sp_use_count (SP (seg_next s) (Shm off)) (snd (getGpuBufferFromPool e s n dl va view fresh)) = 1"
proof -
  let ?G = "getGpuBufferFromPool e s n dl va view fresh"
  from getGpuBufferFromPool_wrap [OF ok] obtain s' pl where w: "?G = wrapGPU s' pl off n dl"
    and h: "handlesGPU s' = handlesGPU s" and q: "seg_next s' = seg_next s" by blast
  have g: "seg_gpu (snd ?G) = seg_gpu s'" by (simp add: w wrapGPU_entry(3))
  have n': "map_of (handlesGPU s') (gb_handle (fst (seg_gpu s' off))) = None"
    using none by (simp add: g h)
  note k = wrapGPU_fresh_entry [OF n', of pl n dl]
  show "map_of (handlesGPU (snd ?G)) (gb_handle (fst (seg_gpu (snd ?G) off)))
           = Some (SP (seg_next s) (Shm off))"
    unfolding g using k(1) by (simp add: w q)
  show "sp_use_count (SP (seg_next s) (Shm off)) (snd ?G) = 1"
    using k(2) by (simp add: w q)
qed

lemma getGpuBufferFromPool_entry:
  assumes "gpu_get (fst (getGpuBufferFromPool e s n dl va view fresh)) = GSeg off"
  shows "\<exists>w. map_of (handlesGPU (snd (getGpuBufferFromPool e s n dl va view fresh)))
               (gb_handle (fst (seg_gpu (snd (getGpuBufferFromPool e s n dl va view fresh)) off)))
             = Some w"
proof -
  let ?G = "getGpuBufferFromPool e s n dl va view fresh"
  from getGpuBufferFromPool_wrap [OF assms] obtain s' pl where w: "?G = wrapGPU s' pl off n dl"
    by blast
  have g: "seg_gpu (snd ?G) = seg_gpu s'" by (simp add: w wrapGPU_entry(3))
  show ?thesis
    unfolding g using wrapGPU_entry(2) [of s' pl off n dl] by (simp add: w)
qed

lemma destroyLocal_exact:
  "map_of (ptrs s) a = Some w \<Longrightarrow> 1 \<le> sp_use_count w s \<Longrightarrow>
     sp_use_count w (destroyLocal s a) + 1 = sp_use_count w s"
  using destroyLocal_entry [of s a w] by simp

lemma destroyLocalGPU_exact:
  "read_handle s r = Some h \<Longrightarrow> map_of (handlesGPU s) h = Some w \<Longrightarrow> 1 \<le> sp_use_count w s \<Longrightarrow>
     sp_use_count w (destroyLocalGPU s r) + 1 = sp_use_count w s"
  using destroyLocalGPU_entry [of s r h w] by simp

text \<open>
  Claim C3, as amended. The local handle cache holds one entry per raw address
  (\<open>ptrs_\<close>) or per handle (\<open>handlesGPU_\<close>), not one per local handle. After
  \<open>createLocal\<close> the entry at the buffer's address (or at its new handle) holds the
  wrapper, and the use count of a live wrapper has grown by one, unless the slot
  already held a wrapper of the same control block (then the count is as before, the
  new copy having replaced the old one). After a successful \<open>requestSHM\<close> or
  \<open>getGpuBufferFromPool\<close> the entry at the buffer's address (or handle) exists; when
  the cache had no entry there before the call (for \<open>requestSHM\<close>, in every state
  reachable through the CPU operations) the entry holds the wrapper constructed by the
  call and the use count of that wrapper is exactly 1. Destroying a local handle whose
  entry is present erases the entry and decrements the use count of the wrapper it
  held exactly once (a count of at least 1, which every entry of a reachable state
  has, goes down by exactly 1), whether or not other local handles of the same
  allocation are alive; destroying a local handle whose entry is gone changes nothing.
\<close>

theorem cache_entry_released_per_drop:
  "map_of (ptrs (snd (createLocal s w))) (cb_get (fst (createLocal s w))) = Some w
   \<and> (seg_ctrl s i = Some c \<longrightarrow>
        sp_use_count (SP i p) (snd (createLocal s (SP i p)))
          = (case map_of (ptrs s) p of
               Some (SP j q) \<Rightarrow> if j = i then use_count c else use_count c + 1
             | _ \<Rightarrow> use_count c + 1))
   \<and> (fst (requestSHM e s n found) = Inr b \<and> cb_get b \<noteq> Null \<longrightarrow>
        (\<exists>w'. map_of (ptrs (snd (requestSHM e s n found))) (cb_get b) = Some w'))
   \<and> (fst (requestSHM e s n found) = Inr b \<and> cb_get b \<noteq> Null
        \<and> (map_of (ptrs s) (cb_get b) = None
             \<or> reachable e s \<and> found \<notin> Some ` set (seg_blocks s)) \<longrightarrow>
        map_of (ptrs (snd (requestSHM e s n found))) (cb_get b) = Some (SP (seg_next s) (cb_get b))
        \<and> sp_use_count (SP (seg_next s) (cb_get b)) (snd (requestSHM e s n found)) = 1)
   \<and> (map_of (ptrs s) a = Some w \<longrightarrow>
        map_of (ptrs (destroyLocal s a)) a = None
        \<and> sp_use_count w (destroyLocal s a) = sp_use_count w s - 1
        \<and> (1 \<le> sp_use_count w s \<longrightarrow> sp_use_count w (destroyLocal s a) + 1 = sp_use_count w s))
   \<and> (reachable e s \<and> map_of (ptrs s) a = Some w \<longrightarrow> 1 \<le> sp_use_count w s)
   \<and> (map_of (ptrs s) a = None \<longrightarrow> destroyLocal s a = s)
   \<and> (gpu_get (fst (createLocalGPU e s w os view)) = GLocal d \<longrightarrow>
        map_of (handlesGPU (snd (createLocalGPU e s w os view))) (gb_handle d) = Some w)
   \<and> (seg_ctrl s i = Some c \<and> gpu_get (fst (createLocalGPU e s (SP i p) os view)) = GLocal d \<longrightarrow>
        sp_use_count (SP i p) (snd (createLocalGPU e s (SP i p) os view))
          = (case map_of (handlesGPU s) (gb_handle d) of
               Some (SP j q) \<Rightarrow> if j = i then use_count c else use_count c + 1
             | _ \<Rightarrow> use_count c + 1))
   \<and> (read_handle s r = Some h \<and> map_of (handlesGPU s) h = Some w \<longrightarrow>
        map_of (handlesGPU (destroyLocalGPU s r)) h = None
        \<and> sp_use_count w (destroyLocalGPU s r) = sp_use_count w s - 1
        \<and> (1 \<le> sp_use_count w s \<longrightarrow> sp_use_count w (destroyLocalGPU s r) + 1 = sp_use_count w s))
   \<and> (read_handle s r = Some h \<and> map_of (handlesGPU s) h = None \<longrightarrow> destroyLocalGPU s r = s)
   \<and> (gpu_get (fst (getGpuBufferFromPool e s n dl va view fresh)) = GSeg off \<longrightarrow>
        (\<exists>w'. map_of (handlesGPU (snd (getGpuBufferFromPool e s n dl va view fresh)))
                 (gb_handle (fst (seg_gpu (snd (getGpuBufferFromPool e s n dl va view fresh)) off)))
               = Some w'))
   \<and> (gpu_get (fst (getGpuBufferFromPool e s n dl va view fresh)) = GSeg off
        \<and> map_of (handlesGPU s)
             (gb_handle (fst (seg_gpu (snd (getGpuBufferFromPool e s n dl va view fresh)) off))) = None \<longrightarrow>
        map_of (handlesGPU (snd (getGpuBufferFromPool e s n dl va view fresh)))
          (gb_handle (fst (seg_gpu (snd (getGpuBufferFromPool e s n dl va view fresh)) off)))
          = Some (SP (seg_next s) (Shm off))
        \<and> sp_use_count (SP (seg_next s) (Shm off)) (snd (getGpuBufferFromPool e s n dl va view fresh)) = 1)"
proof (intro conjI impI)
  show "map_of (ptrs (snd (createLocal s w))) (cb_get (fst (createLocal s w))) = Some w"
    by (rule createLocal_entry)
  show "sp_use_count (SP i p) (snd (createLocal s (SP i p)))
          = (case map_of (ptrs s) p of
               Some (SP j q) \<Rightarrow> if j = i then use_count c else use_count c + 1
             | _ \<Rightarrow> use_count c + 1)"
    if "seg_ctrl s i = Some c"
    using that by (rule createLocal_count)
  show "\<exists>w'. map_of (ptrs (snd (requestSHM e s n found))) (cb_get b) = Some w'"
    if "fst (requestSHM e s n found) = Inr b \<and> cb_get b \<noteq> Null"
    using requestSHM_entry [of e s n found b] that by simp
  show "map_of (ptrs (snd (requestSHM e s n found))) (cb_get b) = Some (SP (seg_next s) (cb_get b))"
    and "sp_use_count (SP (seg_next s) (cb_get b)) (snd (requestSHM e s n found)) = 1"
    if h: "fst (requestSHM e s n found) = Inr b \<and> cb_get b \<noteq> Null
        \<and> (map_of (ptrs s) (cb_get b) = None
             \<or> reachable e s \<and> found \<notin> Some ` set (seg_blocks s))"
  proof -
    have "map_of (ptrs s) (cb_get b) = None"
      using h reachable_no_entry [of e s found n b] by blast
    with h show "map_of (ptrs (snd (requestSHM e s n found))) (cb_get b) = Some (SP (seg_next s) (cb_get b))"
      and "sp_use_count (SP (seg_next s) (cb_get b)) (snd (requestSHM e s n found)) = 1"
      using requestSHM_entry_count [of e s n found b] by simp_all
  qed
  show "map_of (ptrs (destroyLocal s a)) a = None"
    and "sp_use_count w (destroyLocal s a) = sp_use_count w s - 1"
    if "map_of (ptrs s) a = Some w"
    using destroyLocal_entry [OF that] by simp_all
  show "sp_use_count w (destroyLocal s a) + 1 = sp_use_count w s"
    if "map_of (ptrs s) a = Some w" "1 \<le> sp_use_count w s"
    using that by (rule destroyLocal_exact)
  show "1 \<le> sp_use_count w s" if "reachable e s \<and> map_of (ptrs s) a = Some w"
    using reachable_entry_live [of e s a w] that by simp
  show "destroyLocal s a = s" if "map_of (ptrs s) a = None"
    using that by (rule destroyLocal_absent)
  show "map_of (handlesGPU (snd (createLocalGPU e s w os view))) (gb_handle d) = Some w"
    if "gpu_get (fst (createLocalGPU e s w os view)) = GLocal d"
    using that by (rule createLocalGPU_entry)
  show "sp_use_count (SP i p) (snd (createLocalGPU e s (SP i p) os view))
          = (case map_of (handlesGPU s) (gb_handle d) of
               Some (SP j q) \<Rightarrow> if j = i then use_count c else use_count c + 1
             | _ \<Rightarrow> use_count c + 1)"
    if "seg_ctrl s i = Some c \<and> gpu_get (fst (createLocalGPU e s (SP i p) os view)) = GLocal d"
    using createLocalGPU_count [of s i c e p os view d] that by simp
  show "map_of (handlesGPU (destroyLocalGPU s r)) h = None"
    and "sp_use_count w (destroyLocalGPU s r) = sp_use_count w s - 1"
    if "read_handle s r = Some h \<and> map_of (handlesGPU s) h = Some w"
    using destroyLocalGPU_entry [of s r h w] that by simp_all
  show "sp_use_count w (destroyLocalGPU s r) + 1 = sp_use_count w s"
    if "read_handle s r = Some h \<and> map_of (handlesGPU s) h = Some w" "1 \<le> sp_use_count w s"
    using destroyLocalGPU_exact [of s r h w] that by simp
  show "destroyLocalGPU s r = s"
    if "read_handle s r = Some h \<and> map_of (handlesGPU s) h = None"
    using destroyLocalGPU_absent [of s r h] that by simp
  show "\<exists>w'. map_of (handlesGPU (snd (getGpuBufferFromPool e s n dl va view fresh)))
                 (gb_handle (fst (seg_gpu (snd (getGpuBufferFromPool e s n dl va view fresh)) off)))
               = Some w'"
    if "gpu_get (fst (getGpuBufferFromPool e s n dl va view fresh)) = GSeg off"
    using that by (rule getGpuBufferFromPool_entry)
  show "map_of (handlesGPU (snd (getGpuBufferFromPool e s n dl va view fresh)))
          (gb_handle (fst (seg_gpu (snd (getGpuBufferFromPool e s n dl va view fresh)) off)))
          = Some (SP (seg_next s) (Shm off))"
    and "sp_use_count (SP (seg_next s) (Shm off)) (snd (getGpuBufferFromPool e s n dl va view fresh)) = 1"
    if "gpu_get (fst (getGpuBufferFromPool e s n dl va view fresh)) = GSeg off
        \<and> map_of (handlesGPU s)
             (gb_handle (fst (seg_gpu (snd (getGpuBufferFromPool e s n dl va view fresh)) off))) = None"
    using getGpuBufferFromPool_fresh_entry [of e s n dl va view fresh off] that by simp_all
qed

text \<open>
  On the run with a second local handle of one allocation, and on a GPU wrapper made
  local on Windows with duplicated handle 77. After the request the entry holds the
  new wrapper with use count 1; \<open>createLocal\<close> on a slot that already holds the
  wrapper leaves the count (2, the entry and the caller's wrapper) as it is, and on an
  empty slot it adds one reference; the drop of a handle with an entry takes the use
  count from 2 to 1, and the drop of a handle without an entry changes nothing. A GPU
  buffer recycled from the free-list (offset 11, handle 11) has its entry with use
  count 1.
\<close>

theorem cache_entry_released_per_drop_witness:
  "map_of (ptrs (snd second_handle)) (cb_get (fst second_handle)) = Some (fst one_alloc_conv)
   \<and> seg_ctrl (snd one_alloc_conv) 0
       = Some \<lparr>use_count = 2, c_ptr = Shm 0, rc_pool = PoolCPU, rc_offset = 0, rc_size = 16\<rparr>
   \<and> map_of (ptrs (snd one_alloc_conv)) (Shm 0) = Some (SP 0 (Shm 0))
   \<and> sp_use_count (SP 0 (Shm 0)) (snd (createLocal (snd one_alloc_conv) (SP 0 (Shm 0)))) = 2
   \<and> seg_ctrl second_dropped 0
       = Some \<lparr>use_count = 1, c_ptr = Shm 0, rc_pool = PoolCPU, rc_offset = 0, rc_size = 16\<rparr>
   \<and> map_of (ptrs second_dropped) (Shm 0) = None
   \<and> sp_use_count (SP 0 (Shm 0)) (snd (createLocal second_dropped (SP 0 (Shm 0)))) = 2
   \<and> fst (requestSHM posix_env (attached 1048576) 16 (Some 0)) = Inr (CpuBuffer (Shm 0) DestroyLocal)
   \<and> map_of (ptrs (attached 1048576)) (Shm 0) = None
   \<and> seg_next (attached 1048576) = 0
   \<and> map_of (ptrs (snd (requestSHM posix_env (attached 1048576) 16 (Some 0)))) (Shm 0)
       = Some (SP 0 (Shm 0))
   \<and> sp_use_count (SP 0 (Shm 0)) (snd (requestSHM posix_env (attached 1048576) 16 (Some 0))) = 1
   \<and> reachable posix_env (snd (requestSHM posix_env (attached 1048576) 16 (Some 0)))
   \<and> 1 \<le> sp_use_count (SP 0 (Shm 0)) (snd (requestSHM posix_env (attached 1048576) 16 (Some 0)))
   \<and> map_of (ptrs (snd second_handle)) (Shm 0) = Some (SP 0 (Shm 0))
   \<and> sp_use_count (SP 0 (Shm 0)) (snd second_handle) = 2
   \<and> map_of (ptrs (destroyLocal (snd second_handle) (Shm 0))) (Shm 0) = None
   \<and> sp_use_count (SP 0 (Shm 0)) (destroyLocal (snd second_handle) (Shm 0)) = 1
   \<and> sp_use_count (SP 0 (Shm 0)) (destroyLocal (snd second_handle) (Shm 0)) + 1
       = sp_use_count (SP 0 (Shm 0)) (snd second_handle)
   \<and> destroyLocal second_dropped (Shm 0) = second_dropped
   \<and> gpu_get (fst (createLocalGPU windows_env gpu_demo (SP 0 (Shm 20)) ok_dup heapBuf))
       = GLocal \<lparr>gb_handle = 77, gb_size = 4096, gb_memoryTypeIndex = 0\<rparr>
   \<and> seg_ctrl gpu_demo 0
       = Some \<lparr>use_count = 1, c_ptr = Shm 20, rc_pool = PoolGPU, rc_offset = 20, rc_size = 4096\<rparr>
   \<and> map_of (handlesGPU gpu_demo) 77 = None
   \<and> map_of (handlesGPU (snd (createLocalGPU windows_env gpu_demo (SP 0 (Shm 20)) ok_dup heapBuf))) 77
       = Some (SP 0 (Shm 20))
   \<and> sp_use_count (SP 0 (Shm 20)) (snd (createLocalGPU windows_env gpu_demo (SP 0 (Shm 20)) ok_dup heapBuf)) = 2
   \<and> map_of (handlesGPU (destroyLocalGPU
         (snd (createLocalGPU windows_env gpu_demo (SP 0 (Shm 20)) ok_dup heapBuf))
         (GLocal \<lparr>gb_handle = 77, gb_size = 4096, gb_memoryTypeIndex = 0\<rparr>))) 77 = None
   \<and> sp_use_count (SP 0 (Shm 20)) (destroyLocalGPU
         (snd (createLocalGPU windows_env gpu_demo (SP 0 (Shm 20)) ok_dup heapBuf))
         (GLocal \<lparr>gb_handle = 77, gb_size = 4096, gb_memoryTypeIndex = 0\<rparr>)) + 1 = 2
   \<and> map_of (handlesGPU gpu_demo) 70 = None
   \<and> destroyLocalGPU gpu_demo (GLocal \<lparr>gb_handle = 70, gb_size = 4096, gb_memoryTypeIndex = 0\<rparr>)
       = gpu_demo
   \<and> gpu_get (fst (getGpuBufferFromPool posix_env gpu_demo 4096 False (0, 0) heapBuf 30)) = GSeg 11
   \<and> map_of (handlesGPU gpu_demo) 11 = None
   \<and> seg_next gpu_demo = 1
   \<and> map_of (handlesGPU (snd (getGpuBufferFromPool posix_env gpu_demo 4096 False (0, 0) heapBuf 30))) 11
       = Some (SP 1 (Shm 11))
   \<and> sp_use_count (SP 1 (Shm 11))
        (snd (getGpuBufferFromPool posix_env gpu_demo 4096 False (0, 0) heapBuf 30)) = 1"
proof -
  let ?R = "requestSHM posix_env (attached 1048576) 16 (Some 0)"
  let ?b = "CpuBuffer (Shm 0) DestroyLocal"
  let ?G = "getGpuBufferFromPool posix_env gpu_demo 4096 False (0, 0) heapBuf 30"
  let ?d77 = "\<lparr>gb_handle = 77, gb_size = 4096, gb_memoryTypeIndex = 0\<rparr>"
  let ?d70 = "\<lparr>gb_handle = 70, gb_size = 4096, gb_memoryTypeIndex = 0\<rparr>"
  let ?g = "snd (createLocalGPU windows_env gpu_demo (SP 0 (Shm 20)) ok_dup heapBuf)"
  let ?c2 = "\<lparr>use_count = 2, c_ptr = Shm 0, rc_pool = PoolCPU, rc_offset = 0, rc_size = 16\<rparr>"
  let ?c1 = "\<lparr>use_count = 1, c_ptr = Shm 0, rc_pool = PoolCPU, rc_offset = 0, rc_size = 16\<rparr>"
  let ?cg = "\<lparr>use_count = 1, c_ptr = Shm 20, rc_pool = PoolGPU, rc_offset = 20, rc_size = 4096\<rparr>"
  have c: "second_handle = createLocal (snd one_alloc_conv) (fst one_alloc_conv)"
    by (simp add: second_handle_def)
  have cv: "fst one_alloc_conv = SP 0 (Shm 0)"
    by (simp add: cpu_defs run_defs)
  have o: "seg_ctrl (snd one_alloc_conv) 0 = Some ?c2"
      "map_of (ptrs (snd one_alloc_conv)) (Shm 0) = Some (SP 0 (Shm 0))"
    by (simp_all add: cpu_defs run_defs)
  have sd: "seg_ctrl second_dropped 0 = Some ?c1" "map_of (ptrs second_dropped) (Shm 0) = None"
    by (simp_all add: cpu_defs run_defs)
  have r: "fst ?R = Inr ?b" "map_of (ptrs (attached 1048576)) (Shm 0) = None"
      "seg_next (attached 1048576) = 0"
    by (simp_all add: run_defs)
  have rb: "cb_get ?b \<noteq> Null" "cb_get ?b = Shm 0" by simp_all
  have at: "reachable posix_env (attached 1048576)"
    unfolding attached_def by (rule reachable.attach)
  have re: "reachable posix_env (snd ?R)"
    by (rule reachable.request [OF at]) (simp add: run_defs)
  have e: "map_of (ptrs (snd second_handle)) (Shm 0) = Some (SP 0 (Shm 0))"
      "sp_use_count (SP 0 (Shm 0)) (snd second_handle) = 2"
    by (simp_all add: cpu_defs run_defs)
  have g: "gpu_get (fst (createLocalGPU windows_env gpu_demo (SP 0 (Shm 20)) ok_dup heapBuf)) = GLocal ?d77"
    by (simp add: gpu_defs run_defs ok_dup_def)
  have gd: "seg_ctrl gpu_demo 0 = Some ?cg" "map_of (handlesGPU gpu_demo) 77 = None"
      "map_of (handlesGPU gpu_demo) 70 = None" "map_of (handlesGPU gpu_demo) 11 = None"
      "seg_next gpu_demo = 1"
    by (simp_all add: gpu_defs run_defs)
  have h: "read_handle ?g (GLocal ?d77) = Some 77" "read_handle gpu_demo (GLocal ?d70) = Some 70"
    by simp_all
  have p1: "gpu_get (fst ?G) = GSeg 11"
    by (simp add: getGpuBufferFromPool_def wrapGPU_def posix_env_def gpu_defs run_defs)
  have p2: "gb_handle (fst (seg_gpu (snd ?G) 11)) = 11"
    by (simp add: getGpuBufferFromPool_def wrapGPU_def posix_env_def gpu_defs run_defs)

  note t1 = cache_entry_released_per_drop [where s = "snd one_alloc_conv" and w = "fst one_alloc_conv",
      THEN conjunct1]
  note t2a = cache_entry_released_per_drop [where s = "snd one_alloc_conv" and i = 0 and c = ?c2 and p = "Shm 0",
      THEN conjunct2, THEN conjunct1]
  note t2b = cache_entry_released_per_drop [where s = second_dropped and i = 0 and c = ?c1 and p = "Shm 0",
      THEN conjunct2, THEN conjunct1]
  note t4 = cache_entry_released_per_drop [where s = "attached 1048576" and e = posix_env and n = 16 and found = "Some 0" and b = ?b,
      THEN conjunct2, THEN conjunct2, THEN conjunct2, THEN conjunct1]
  note t5 = cache_entry_released_per_drop [where s = "snd second_handle" and a = "Shm 0" and w = "SP 0 (Shm 0)",
      THEN conjunct2, THEN conjunct2, THEN conjunct2, THEN conjunct2, THEN conjunct1]
  note t6 = cache_entry_released_per_drop [where s = "snd ?R" and e = posix_env and a = "Shm 0" and w = "SP 0 (Shm 0)",
      THEN conjunct2, THEN conjunct2, THEN conjunct2, THEN conjunct2, THEN conjunct2, THEN conjunct1]
  note t7 = cache_entry_released_per_drop [where s = second_dropped and a = "Shm 0",
      THEN conjunct2, THEN conjunct2, THEN conjunct2, THEN conjunct2, THEN conjunct2, THEN conjunct2, THEN conjunct1]
  note t8 = cache_entry_released_per_drop [where s = gpu_demo and e = windows_env and w = "SP 0 (Shm 20)" and os = ok_dup and view = heapBuf and d = ?d77,
      THEN conjunct2, THEN conjunct2, THEN conjunct2, THEN conjunct2, THEN conjunct2, THEN conjunct2, THEN conjunct2, THEN conjunct1]
  note t9 = cache_entry_released_per_drop [where s = gpu_demo and e = windows_env and i = 0 and p = "Shm 20" and c = ?cg and os = ok_dup and view = heapBuf and d = ?d77,
      THEN conjunct2, THEN conjunct2, THEN conjunct2, THEN conjunct2, THEN conjunct2, THEN conjunct2, THEN conjunct2, THEN conjunct2, THEN conjunct1]
  note t10 = cache_entry_released_per_drop [where s = ?g and r = "GLocal ?d77" and h = 77 and w = "SP 0 (Shm 20)",
      THEN conjunct2, THEN conjunct2, THEN conjunct2, THEN conjunct2, THEN conjunct2, THEN conjunct2, THEN conjunct2, THEN conjunct2, THEN conjunct2, THEN conjunct1]
  note t11 = cache_entry_released_per_drop [where s = gpu_demo and r = "GLocal ?d70" and h = 70,
      THEN conjunct2, THEN conjunct2, THEN conjunct2, THEN conjunct2, THEN conjunct2, THEN conjunct2, THEN conjunct2, THEN conjunct2, THEN conjunct2, THEN conjunct2, THEN conjunct1]
  note t13 = cache_entry_released_per_drop [where s = gpu_demo and e = posix_env and n = 4096 and dl = False and va = "(0, 0)" and view = heapBuf and fresh = 30 and off = 11,
      THEN conjunct2, THEN conjunct2, THEN conjunct2, THEN conjunct2, THEN conjunct2, THEN conjunct2, THEN conjunct2, THEN conjunct2, THEN conjunct2, THEN conjunct2, THEN conjunct2, THEN conjunct2]
  have a1: "map_of (ptrs (snd second_handle)) (cb_get (fst second_handle)) = Some (fst one_alloc_conv)"
    using t1 by (simp only: c [symmetric])
  have a2a: "sp_use_count (SP 0 (Shm 0)) (snd (createLocal (snd one_alloc_conv) (SP 0 (Shm 0)))) = 2"
    using t2a o by simp
  have a2b: "sp_use_count (SP 0 (Shm 0)) (snd (createLocal second_dropped (SP 0 (Shm 0)))) = 2"
    using t2b sd by simp
  have a4: "map_of (ptrs (snd ?R)) (Shm 0) = Some (SP 0 (Shm 0))"
      "sp_use_count (SP 0 (Shm 0)) (snd ?R) = 1"
    using t4 r by simp_all
  have a6: "1 \<le> sp_use_count (SP 0 (Shm 0)) (snd ?R)"
    using t6 re a4(1) by blast
  have a5: "map_of (ptrs (destroyLocal (snd second_handle) (Shm 0))) (Shm 0) = None"
      "sp_use_count (SP 0 (Shm 0)) (destroyLocal (snd second_handle) (Shm 0)) = 1"
      "sp_use_count (SP 0 (Shm 0)) (destroyLocal (snd second_handle) (Shm 0)) + 1
         = sp_use_count (SP 0 (Shm 0)) (snd second_handle)"
    using t5 e by simp_all
  have a7: "destroyLocal second_dropped (Shm 0) = second_dropped"
    using t7 sd by simp
  have a8: "map_of (handlesGPU ?g) 77 = Some (SP 0 (Shm 20))"
    using t8 g by simp
  have a9: "sp_use_count (SP 0 (Shm 20)) ?g = 2"
    using t9 g gd by simp
  have a10: "map_of (handlesGPU (destroyLocalGPU ?g (GLocal ?d77))) 77 = None"
      "sp_use_count (SP 0 (Shm 20)) (destroyLocalGPU ?g (GLocal ?d77)) + 1 = 2"
    using t10 h(1) a8 a9 by simp_all
  have a11: "destroyLocalGPU gpu_demo (GLocal ?d70) = gpu_demo"
    using t11 h(2) gd by simp
  have a13: "map_of (handlesGPU (snd ?G)) 11 = Some (SP 1 (Shm 11))"
      "sp_use_count (SP 1 (Shm 11)) (snd ?G) = 1"
    using t13 p1 p2 gd by simp_all
  show ?thesis
    using a1 o a2a sd a2b r a4 re a6 e a5 a7 g gd a8 a9 a10 a11 p1 a13 by simp
qed

text \<open>
  Claim C3 as stated fails. A buffer is requested, its wrapper is obtained by
  \<open>convert\<close> and made local again by \<open>createLocal\<close>: two local handles of the same
  allocation (raw address \<open>Shm 0\<close>), one cache entry, use count 2 (the entry and the
  caller's wrapper). Dropping the second handle erases the entry and decrements the
  count while the first handle is alive; the first handle is then left with no entry
  (\<open>convert\<close> of it is empty), and its own destruction decrements nothing.
\<close>

theorem second_handle_breaks_cache:
  "fst one_alloc = CpuBuffer (Shm 0) DestroyLocal
   \<and> fst one_alloc_conv = SP 0 (Shm 0)
   \<and> fst second_handle = CpuBuffer (Shm 0) DestroyLocal
   \<and> sp_use_count (SP 0 (Shm 0)) (snd second_handle) = 2
   \<and> sp_use_count (SP 0 (Shm 0)) second_dropped = 1
   \<and> map_of (ptrs second_dropped) (cb_get (fst one_alloc)) = None
   \<and> fst (convert second_dropped (fst one_alloc)) = EmptySP
   \<and> dropCpuBuffer second_dropped (fst one_alloc) = second_dropped"
  by (simp add: cpu_defs run_defs)

section \<open>The direct request\<close>

lemma convert_then_drop:
  assumes "map_of (ptrs s1) a = Some w"
  shows "map_of (ptrs (dropCpuBuffer (snd (convert s1 (CpuBuffer a DestroyLocal)))
                         (CpuBuffer a DestroyLocal))) a = None"
  using assms by (simp add: convert_def dropCpuBuffer_def destroyLocal_def delete_conv')

lemma direct_unfold:
  "requestSHM e s n found = (Inr (CpuBuffer a DestroyLocal), s1) \<Longrightarrow>
     getBufferFromSharedPoolDirect e s n found
       = (Inr (fst (convert s1 (CpuBuffer a DestroyLocal))),
          dropCpuBuffer (snd (convert s1 (CpuBuffer a DestroyLocal))) (CpuBuffer a DestroyLocal))"
  by (simp add: getBufferFromSharedPoolDirect_def split: prod.splits)

lemma convert_absent:
  "map_of (ptrs s) a = None \<Longrightarrow> convert s (CpuBuffer a d) = (EmptySP, s)"
  by (simp add: convert_def)

lemma isBufferFromPool_absent:
  "map_of (ptrs s) a = None \<Longrightarrow> isBufferFromPool s (CpuBuffer a d) = (False, s)"
  by (simp add: isBufferFromPool_def convert_def sp_release_def)

text \<open>The direct request, step by step, when the cache had no entry at the address.\<close>

lemma direct_fresh_key:
  fixes s' :: state and a :: addr and off :: offset and n :: size_t
  assumes ns: "map_of (ptrs s') a = None"
  defines "s1 \<equiv> snd (wrapSHM s' a off n)"
  defines "w \<equiv> SP (seg_next s') a"
  defines "s3 \<equiv> dropCpuBuffer (snd (convert s1 (CpuBuffer a DestroyLocal))) (CpuBuffer a DestroyLocal)"
  shows "fst (convert s1 (CpuBuffer a DestroyLocal)) = w"
    and "seg_ctrl s3 (seg_next s')
           = Some \<lparr>use_count = 1, c_ptr = a, rc_pool = PoolCPU, rc_offset = off, rc_size = n\<rparr>"
    and "pool s3 = pool s1"
    and "pool (sp_release w s3)
           = (pool s3)\<lparr>buffers := AList.update n
                (lookup_default [] (buffers (pool s3)) n @ [off]) (buffers (pool s3))\<rparr>"
proof -
  note k = wrapSHM_fresh_key [OF ns, of off n]
  have e1: "map_of (ptrs s1) a = Some w" using k(1) by (simp add: s1_def w_def)
  have c1: "seg_ctrl s1 (seg_next s')
      = Some \<lparr>use_count = 1, c_ptr = a, rc_pool = PoolCPU, rc_offset = off, rc_size = n\<rparr>"
    using k(2) by (simp add: s1_def)
  show "fst (convert s1 (CpuBuffer a DestroyLocal)) = w"
    using e1 by (simp add: convert_def)
  have s3: "s3 = s1\<lparr>ptrs := AList.delete a (ptrs s1)\<rparr>"
    using e1 c1 by (simp add: s3_def convert_def dropCpuBuffer_def destroyLocal_def
        sp_copy_def sp_release_def w_def map_upd_triv)
  show "seg_ctrl s3 (seg_next s')
           = Some \<lparr>use_count = 1, c_ptr = a, rc_pool = PoolCPU, rc_offset = off, rc_size = n\<rparr>"
    using c1 by (simp add: s3)
  show "pool s3 = pool s1" by (simp add: s3)
  show "pool (sp_release w s3)
           = (pool s3)\<lparr>buffers := AList.update n
                (lookup_default [] (buffers (pool s3)) n @ [off]) (buffers (pool s3))\<rparr>"
    using c1 by (simp add: s3 w_def sp_release_def reclaim_cpu_pool)
qed

lemma weaken_last:
  "A \<and> B \<and> C \<and> (P \<longrightarrow> D) \<Longrightarrow> (Q \<Longrightarrow> P) \<Longrightarrow> A \<and> B \<and> C \<and> (Q \<longrightarrow> D)"
  by blast

text \<open>
  The direct request, with the second part for any state in which the cache holds no
  entry at the address of the block served.
\<close>

lemma direct_request_no_entry:
  assumes res: "fst (requestSHM e s n found) = Inr b" and ok: "cb_get b \<noteq> Null"
  shows "map_of (ptrs (snd (getBufferFromSharedPoolDirect e s n found))) (cb_get b) = None
       \<and> convert (snd (getBufferFromSharedPoolDirect e s n found)) (CpuBuffer (cb_get b) d)
           = (EmptySP, snd (getBufferFromSharedPoolDirect e s n found))
       \<and> isBufferFromPool (snd (getBufferFromSharedPoolDirect e s n found)) (CpuBuffer (cb_get b) d)
           = (False, snd (getBufferFromSharedPoolDirect e s n found))
       \<and> (map_of (ptrs s) (cb_get b) = None \<longrightarrow>
            fst (getBufferFromSharedPoolDirect e s n found) = Inr (SP (seg_next s) (cb_get b))
          \<and> sp_use_count (SP (seg_next s) (cb_get b))
               (snd (getBufferFromSharedPoolDirect e s n found)) = 1
          \<and> pool (snd (getBufferFromSharedPoolDirect e s n found)) = pool (snd (requestSHM e s n found))
          \<and> (\<exists>off. cb_get b = Shm off
                \<and> lookup_default []
                     (buffers (pool (sp_release (SP (seg_next s) (cb_get b))
                                       (snd (getBufferFromSharedPoolDirect e s n found))))) n
                   = lookup_default [] (buffers (pool (snd (getBufferFromSharedPoolDirect e s n found)))) n
                       @ [off]))"
proof -
  obtain s' off where r: "requestSHM e s n found = returns (wrapSHM s' (Shm off) off n)"
    and p: "ptrs s' = ptrs s" and q: "seg_next s' = seg_next s"
    using res ok by (rule requestSHM_success)
  let ?a = "Shm off"
  let ?s1 = "snd (wrapSHM s' ?a off n)"
  let ?tmp = "CpuBuffer ?a DestroyLocal"
  let ?s3 = "dropCpuBuffer (snd (convert ?s1 ?tmp)) ?tmp"
  let ?D = "getBufferFromSharedPoolDirect e s n found"
  from res r have b: "b = ?tmp" by simp
  then have a: "cb_get b = ?a" by simp
  have r': "requestSHM e s n found = (Inr ?tmp, ?s1)"
    by (simp add: r returns_def)
  have s1: "snd (requestSHM e s n found) = ?s1" by (simp add: r)
  note g = direct_unfold [OF r']
  obtain w0 where e1: "map_of (ptrs ?s1) ?a = Some w0"
    using wrapSHM_ptrs_key [of s' ?a off n] by blast
  have none: "map_of (ptrs (snd ?D)) ?a = None"
    using convert_then_drop [OF e1] by (simp add: g)
  have fresh_case:
    "fst ?D = Inr (SP (seg_next s) ?a)
     \<and> sp_use_count (SP (seg_next s) ?a) (snd ?D) = 1
     \<and> pool (snd ?D) = pool (snd (requestSHM e s n found))
     \<and> lookup_default [] (buffers (pool (sp_release (SP (seg_next s) ?a) (snd ?D)))) n
           = lookup_default [] (buffers (pool (snd ?D))) n @ [off]"
    if "map_of (ptrs s) ?a = None"
  proof -
    have ns: "map_of (ptrs s') ?a = None" using that p by simp
    note f = direct_fresh_key [OF ns, of off n]
    have w: "fst ?D = Inr (SP (seg_next s) ?a)"
      using f(1) by (simp add: g q)
    have s3: "snd ?D = ?s3" by (simp add: g)
    show ?thesis
      using f(2,3,4) by (simp add: w s3 s1 q [symmetric] sp_use_count_def)
  qed
  show ?thesis
    unfolding a
  proof (intro conjI impI)
    show "map_of (ptrs (snd ?D)) ?a = None"
      by (rule none)
    show "convert (snd ?D) (CpuBuffer ?a d) = (EmptySP, snd ?D)"
      using none by (rule convert_absent)
    show "isBufferFromPool (snd ?D) (CpuBuffer ?a d) = (False, snd ?D)"
      using none by (rule isBufferFromPool_absent)
    assume ns: "map_of (ptrs s) ?a = None"
    show "fst ?D = Inr (SP (seg_next s) ?a)"
      using fresh_case [OF ns] by blast
    show "sp_use_count (SP (seg_next s) ?a) (snd ?D) = 1"
      using fresh_case [OF ns] by blast
    show "pool (snd ?D) = pool (snd (requestSHM e s n found))"
      using fresh_case [OF ns] by blast
    show "\<exists>off'. ?a = Shm off'
                \<and> lookup_default [] (buffers (pool (sp_release (SP (seg_next s) ?a) (snd ?D)))) n
                   = lookup_default [] (buffers (pool (snd ?D))) n @ [off']"
      using fresh_case [OF ns] by blast
  qed
qed

text \<open>
  Claim C10. When the request behind \<open>getBufferFromSharedPoolDirect(n)\<close> returns a
  non-empty buffer, no entry is left in \<open>ptrs_\<close> at the raw address of the allocation
  once the call has returned (the deleter of the temporary buffer has erased it), so
  \<open>convert\<close> and \<open>isBufferFromPool\<close> of any local buffer at that address are empty. In
  a reachable state (a block the segment manager finds being at an offset of no live
  object) the returned wrapper is the one constructed by the request, its use count is
  1, the pool is as \<open>requestSHM\<close> left it (the offset has not been pushed back), and
  releasing the wrapper pushes the offset onto \<open>buffers[n]\<close>.
\<close>

theorem direct_request_not_cached:
  assumes res: "fst (requestSHM e s n found) = Inr b" and ok: "cb_get b \<noteq> Null"
  shows "map_of (ptrs (snd (getBufferFromSharedPoolDirect e s n found))) (cb_get b) = None
       \<and> convert (snd (getBufferFromSharedPoolDirect e s n found)) (CpuBuffer (cb_get b) d)
           = (EmptySP, snd (getBufferFromSharedPoolDirect e s n found))
       \<and> isBufferFromPool (snd (getBufferFromSharedPoolDirect e s n found)) (CpuBuffer (cb_get b) d)
           = (False, snd (getBufferFromSharedPoolDirect e s n found))
       \<and> (reachable e s \<and> found \<notin> Some ` set (seg_blocks s) \<longrightarrow>
            fst (getBufferFromSharedPoolDirect e s n found) = Inr (SP (seg_next s) (cb_get b))
          \<and> sp_use_count (SP (seg_next s) (cb_get b))
               (snd (getBufferFromSharedPoolDirect e s n found)) = 1
          \<and> pool (snd (getBufferFromSharedPoolDirect e s n found)) = pool (snd (requestSHM e s n found))
          \<and> (\<exists>off. cb_get b = Shm off
                \<and> lookup_default []
                     (buffers (pool (sp_release (SP (seg_next s) (cb_get b))
                                       (snd (getBufferFromSharedPoolDirect e s n found))))) n
                   = lookup_default [] (buffers (pool (snd (getBufferFromSharedPoolDirect e s n found)))) n
                       @ [off]))"
  by (rule weaken_last [OF direct_request_no_entry [OF res ok, of d]], elim conjE,
      rule reachable_no_entry [OF _ _ res ok])

text \<open>
  In a new segment: the direct request of 64 bytes returns the wrapper of control block
  0 for offset 0, leaves no cache entry, holds the only reference, and the free-list of
  64 gets offset 0 only when the wrapper is released.
\<close>

theorem direct_request_not_cached_witness:
  "fst (requestSHM posix_env (attached 1048576) 64 (Some 0)) = Inr (CpuBuffer (Shm 0) DestroyLocal)
   \<and> cb_get (CpuBuffer (Shm 0) DestroyLocal) \<noteq> Null
   \<and> reachable posix_env (attached 1048576)
   \<and> Some 0 \<notin> Some ` set (seg_blocks (attached 1048576))
   \<and> fst (getBufferFromSharedPoolDirect posix_env (attached 1048576) 64 (Some 0)) = Inr (SP 0 (Shm 0))
   \<and> map_of (ptrs (snd (getBufferFromSharedPoolDirect posix_env (attached 1048576) 64 (Some 0)))) (Shm 0)
       = None
   \<and> fst (convert (snd (getBufferFromSharedPoolDirect posix_env (attached 1048576) 64 (Some 0)))
            (CpuBuffer (Shm 0) DestroyLocal)) = EmptySP
   \<and> \<not> fst (isBufferFromPool (snd (getBufferFromSharedPoolDirect posix_env (attached 1048576) 64 (Some 0)))
              (CpuBuffer (Shm 0) DestroyLocal))
   \<and> sp_use_count (SP 0 (Shm 0))
        (snd (getBufferFromSharedPoolDirect posix_env (attached 1048576) 64 (Some 0))) = 1
   \<and> lookup_default []
        (buffers (pool (snd (getBufferFromSharedPoolDirect posix_env (attached 1048576) 64 (Some 0))))) 64
       = []
   \<and> lookup_default []
        (buffers (pool (sp_release (SP 0 (Shm 0))
           (snd (getBufferFromSharedPoolDirect posix_env (attached 1048576) 64 (Some 0)))))) 64 = [0]"
proof -
  have r: "fst (requestSHM posix_env (attached 1048576) 64 (Some 0)) = Inr (CpuBuffer (Shm 0) DestroyLocal)"
    by (simp add: run_defs)
  have p: "Some 0 \<notin> Some ` set (seg_blocks (attached 1048576))" "seg_next (attached 1048576) = 0"
    by (simp_all add: run_defs)
  have q: "reachable posix_env (attached 1048576)"
    unfolding attached_def by (rule reachable.attach)
  have l: "lookup_default []
        (buffers (pool (snd (requestSHM posix_env (attached 1048576) 64 (Some 0))))) 64 = []"
    by (simp add: run_defs)
  show ?thesis
    using direct_request_not_cached [where e = posix_env and s = "attached 1048576" and n = 64
        and found = "Some 0" and b = "CpuBuffer (Shm 0) DestroyLocal" and d = DestroyLocal] r p q l
    by auto
qed

end
